theory Spec2Isabelle
  imports Complex_Main
begin

section \<open>Python floats: IEEE 754 doubles\<close>

text \<open>
  The program is \<^verbatim>\<open>src/main.py\<close>, class \<^verbatim>\<open>SIPCalculator\<close>. Its numbers are Python floats, that
  is IEEE 754 binary64 values: a finite double is a real number \<open>m \<times> 2^e\<close> with
  \<open>|m| < 2^53\<close> and \<open>-1074 \<le> e \<le> 971\<close>, and there are the two infinities and
  not-a-number. The sign of zero is left out: the program never looks at it (dividing by
  either zero raises). Python ints are \<^typ>\<open>int\<close>.
\<close>

datatype pyfloat = Fin real | PInf | NInf | NaN

text \<open>
  Rounding to an integer, a tie going to the even neighbour (the IEEE default, and the rule
  of Python's \<^verbatim>\<open>round\<close>).
\<close>

definition round_half_even :: "real \<Rightarrow> int" where
  "round_half_even x =
     (let f = \<lfloor>x\<rfloor>; d = x - of_int f
      in if d < 1 / 2 then f
         else if 1 / 2 < d then f + 1
         else if even f then f else f + 1)"

text \<open>
  The binary exponent of a magnitude \<open>a\<close>: the \<open>e\<close> between -1022 and 1023 with
  \<open>2^e \<le> a < 2^(e+1)\<close>, found by bisection; -1022 for the subnormal magnitudes below
  \<open>2^-1022\<close> and 1023 above the range.
\<close>

fun expo_bisect :: "nat \<Rightarrow> int \<Rightarrow> int \<Rightarrow> real \<Rightarrow> int" where
  "expo_bisect 0 lo hi a = lo"
| "expo_bisect (Suc k) lo hi a =
     (if hi \<le> lo then lo
      else
        (let mid = (lo + hi + 1) div 2
         in if 2 powi mid \<le> a then expo_bisect k mid hi a
            else expo_bisect k lo (mid - 1) a))"

definition expo :: "real \<Rightarrow> int" where
  "expo a = expo_bisect 11 (- 1022) 1023 a"

text \<open>
  Rounding a real to the nearest double: the nearest multiple of the unit in the last place
  \<open>2^(e-52)\<close>, ties to even. A result of magnitude \<open>2^1024\<close> or more is an infinity.
  Every float operation of the program is the exact operation followed by this rounding.
\<close>

definition rnd_val :: "real \<Rightarrow> real" where
  "rnd_val x =
     of_int (round_half_even (x / 2 powi (expo \<bar>x\<bar> - 52))) * 2 powi (expo \<bar>x\<bar> - 52)"

definition huge :: real where
  "huge = 2 powi 1024"

definition rnd :: "real \<Rightarrow> pyfloat" where
  "rnd x =
     (let y = rnd_val x
      in if huge \<le> y then PInf
         else if y \<le> - huge then NInf
         else Fin y)"

definition is_double :: "real \<Rightarrow> bool" where
  "is_double x = (rnd x = Fin x)"

text \<open>
  The four operations, with the IEEE rules for infinities and not-a-number. \<open>fdiv\<close> is
  division by a non-zero divisor; Python's check for a zero divisor is in \<open>float_div\<close>
  below.
\<close>

fun fneg :: "pyfloat \<Rightarrow> pyfloat" where
  "fneg (Fin a) = Fin (- a)"
| "fneg PInf = NInf"
| "fneg NInf = PInf"
| "fneg NaN = NaN"

fun fadd :: "pyfloat \<Rightarrow> pyfloat \<Rightarrow> pyfloat" where
  "fadd (Fin a) (Fin b) = rnd (a + b)"
| "fadd NaN y = NaN"
| "fadd x NaN = NaN"
| "fadd PInf NInf = NaN"
| "fadd NInf PInf = NaN"
| "fadd PInf y = PInf"
| "fadd x PInf = PInf"
| "fadd NInf y = NInf"
| "fadd x NInf = NInf"

definition fsub :: "pyfloat \<Rightarrow> pyfloat \<Rightarrow> pyfloat" where
  "fsub x y = fadd x (fneg y)"

fun fmul :: "pyfloat \<Rightarrow> pyfloat \<Rightarrow> pyfloat" where
  "fmul (Fin a) (Fin b) = rnd (a * b)"
| "fmul NaN y = NaN"
| "fmul x NaN = NaN"
| "fmul (Fin a) y = (if a = 0 then NaN else if 0 < a then y else fneg y)"
| "fmul x (Fin b) = (if b = 0 then NaN else if 0 < b then x else fneg x)"
| "fmul x y = (if x = y then PInf else NInf)"

fun fdiv :: "pyfloat \<Rightarrow> pyfloat \<Rightarrow> pyfloat" where
  "fdiv (Fin a) (Fin b) = rnd (a / b)"
| "fdiv NaN y = NaN"
| "fdiv x NaN = NaN"
| "fdiv (Fin a) y = Fin 0"
| "fdiv x (Fin b) = (if 0 < b then x else fneg x)"
| "fdiv x y = NaN"

section \<open>Python's float operations that raise\<close>

text \<open>
  What Python raises is a value: \<open>Inl\<close> of the exception.
\<close>

datatype py_error = ZeroDivisionError | OverflowError

text \<open>
  \<^verbatim>\<open>a / b\<close> raises \<^verbatim>\<open>ZeroDivisionError\<close> when \<^verbatim>\<open>b\<close> is zero, whatever \<^verbatim>\<open>a\<close> is; it never
  raises on overflow. An int operand of a float operation is first converted to a float,
  correctly rounded, which raises \<^verbatim>\<open>OverflowError\<close> when the int is beyond the doubles.
\<close>

definition float_div :: "pyfloat \<Rightarrow> pyfloat \<Rightarrow> py_error + pyfloat" where
  "float_div a b = (if b = Fin 0 then Inl ZeroDivisionError else Inr (fdiv a b))"

definition int_to_float :: "int \<Rightarrow> py_error + pyfloat" where
  "int_to_float k =
     (case rnd (of_int k) of
        Fin w \<Rightarrow> Inr (Fin w)
      | PInf \<Rightarrow> Inl OverflowError
      | NInf \<Rightarrow> Inl OverflowError
      | NaN \<Rightarrow> Inl OverflowError)"

text \<open>
  \<^verbatim>\<open>x ** k\<close> with a float base and an int exponent is CPython's \<^verbatim>\<open>float_pow\<close>: the exponent
  is converted to a float, then the cases \<open>k = 0\<close>, a not-a-number or infinite base, a
  zero base (which raises \<^verbatim>\<open>ZeroDivisionError\<close> for a negative exponent) and a base of
  magnitude one are answered directly, and every other case goes to the C library's
  \<^verbatim>\<open>pow\<close> on the magnitude of the base, the sign put back for an odd exponent. An infinite
  result of \<^verbatim>\<open>pow\<close> raises \<^verbatim>\<open>OverflowError\<close>. The C library's \<^verbatim>\<open>pow\<close> is not part of the
  program, and unlike the four operations it need not be correctly rounded, so it is a
  parameter: a function of the base and of the integer value of the exponent.
\<close>

type_synonym libm_pow = "real \<Rightarrow> int \<Rightarrow> pyfloat"

definition float_pow :: "libm_pow \<Rightarrow> pyfloat \<Rightarrow> int \<Rightarrow> py_error + pyfloat" where
  "float_pow pow v k =
     (case int_to_float k of
        Inl e \<Rightarrow> Inl e
      | Inr w \<Rightarrow>
          (let iw = (case w of Fin wv \<Rightarrow> \<lfloor>wv\<rfloor> | _ \<Rightarrow> 0)
           in if iw = 0 then Inr (Fin 1)
              else
                (case v of
                   NaN \<Rightarrow> Inr NaN
                 | PInf \<Rightarrow> Inr (if 0 < iw then PInf else Fin 0)
                 | NInf \<Rightarrow> Inr (if 0 < iw then (if odd iw then NInf else PInf) else Fin 0)
                 | Fin iv \<Rightarrow>
                     if iv = 0 then (if iw < 0 then Inl ZeroDivisionError else Inr (Fin 0))
                     else if \<bar>iv\<bar> = 1 then Inr (Fin (if iv < 0 \<and> odd iw then - 1 else 1))
                     else
                       (case pow \<bar>iv\<bar> iw of
                          Fin ix \<Rightarrow> Inr (Fin (if iv < 0 \<and> odd iw then - ix else ix))
                        | PInf \<Rightarrow> Inl OverflowError
                        | NInf \<Rightarrow> Inl OverflowError
                        | NaN \<Rightarrow> Inr NaN))))"

section \<open>The future-value function\<close>

text \<open>
  \<^verbatim>\<open>calculate_sip_future_value(monthly_investment, rate_of_return, years)\<close>, lines 10 to 27,
  operation by operation in Python's evaluation order. The parameters are abbreviated
  because the dictionary keys of a fund carry the same names. The divisions by 100 and 12
  cannot raise.
\<close>

definition calculate_sip_future_value ::
    "libm_pow \<Rightarrow> pyfloat \<Rightarrow> pyfloat \<Rightarrow> int \<Rightarrow> py_error + pyfloat" where
  "calculate_sip_future_value pow monthly rate yrs =
     (let months = yrs * 12;
          monthly_rate = fdiv (fdiv rate (Fin 100)) (Fin 12)
      in case float_pow pow (fadd (Fin 1) monthly_rate) months of
           Inl e \<Rightarrow> Inl e
         | Inr p \<Rightarrow>
             (case float_div (fsub p (Fin 1)) monthly_rate of
                Inl e \<Rightarrow> Inl e
              | Inr q \<Rightarrow> Inr (fmul (fmul monthly q) (fadd (Fin 1) monthly_rate))))"

section \<open>The C library's pow\<close>

text \<open>
  What is asked of the platform's \<^verbatim>\<open>pow\<close> on a double base above one and a positive integer
  exponent: a finite result within a relative error of \<open>2^-52\<close> (one unit in the last
  place) when the exact power is at most \<open>2^1023\<close>, and infinity when it is \<open>2^1024\<close> or
  more. \<open>cr_pow\<close> is the correctly rounded power, which meets this.
\<close>

definition libm_ok :: "libm_pow \<Rightarrow> bool" where
  "libm_ok pow \<longleftrightarrow>
     (\<forall>b k. is_double b \<and> 1 < b \<and> 0 < k \<longrightarrow>
        (b ^ nat k \<le> huge / 2 \<longrightarrow>
           (\<exists>p. pow b k = Fin p \<and> \<bar>p - b ^ nat k\<bar> \<le> b ^ nat k * 2 powi (- 52)))
        \<and> (huge \<le> b ^ nat k \<longrightarrow> pow b k = PInf))"

definition cr_pow :: libm_pow where
  "cr_pow b k = (if 0 \<le> k then rnd (b ^ nat k) else rnd (1 / b ^ nat (- k)))"

section \<open>The fund list and the report\<close>

text \<open>
  A fund is the dictionary with the keys \<^verbatim>\<open>fund_name\<close>, \<^verbatim>\<open>monthly_investment\<close>,
  \<^verbatim>\<open>rate_of_return\<close> and \<^verbatim>\<open>years\<close>; \<^verbatim>\<open>st.session_state.funds\<close> is the list of them,
  after \<^verbatim>\<open>initialize_session_state\<close> has created it.
\<close>

record fund =
  fund_name :: string
  monthly_investment :: pyfloat
  rate_of_return :: pyfloat
  years :: int

record session_state =
  funds :: "fund list"

text \<open>
  \<^verbatim>\<open>round(x, 2)\<close> on a float: the exact value is rounded to two decimals, ties to even, and
  the result is the double nearest to that decimal; infinities and not-a-number are
  returned as they are.
\<close>

fun round2 :: "pyfloat \<Rightarrow> pyfloat" where
  "round2 (Fin x) = rnd (of_int (round_half_even (x * 100)) / 100)"
| "round2 PInf = PInf"
| "round2 NInf = NInf"
| "round2 NaN = NaN"

text \<open>The decimal text of a natural number, as an f-string prints an index or a length.\<close>

definition digit_char :: "nat \<Rightarrow> char" where
  "digit_char d = ''0123456789'' ! d"

fun str_nat :: "nat \<Rightarrow> string" where
  "str_nat n = (if n < 10 then [digit_char n] else str_nat (n div 10) @ [digit_char (n mod 10)])"

declare str_nat.simps [simp del]

text \<open>\<^verbatim>\<open>sep.join(xs)\<close>.\<close>

fun join :: "string \<Rightarrow> string list \<Rightarrow> string" where
  "join sep [] = []"
| "join sep [x] = x"
| "join sep (x # y # ys) = x @ sep @ join sep (y # ys)"

text \<open>
  One row of \<^verbatim>\<open>data\<close> (lines 168 to 173), with the columns \<^verbatim>\<open>Fund Name\<close>,
  \<^verbatim>\<open>Invested Amount\<close>, \<^verbatim>\<open>Estimated Returns\<close> and \<^verbatim>\<open>Future Value\<close>. A string is false
  in \<^verbatim>\<open>name or label\<close> exactly when it is empty.
\<close>

record result_row =
  fund_name_col :: string
  invested_amount_col :: pyfloat
  estimated_returns_col :: pyfloat
  future_value_col :: pyfloat

definition result_row :: "nat \<Rightarrow> fund \<Rightarrow> pyfloat \<Rightarrow> pyfloat \<Rightarrow> result_row" where
  "result_row idx fund invested_amount future_value =
     \<lparr>fund_name_col = (if fund_name fund \<noteq> [] then fund_name fund
                        else ''Fund '' @ str_nat (idx + 1)),
      invested_amount_col = round2 invested_amount,
      estimated_returns_col = round2 (fsub future_value invested_amount),
      future_value_col = round2 future_value\<rparr>"

text \<open>
  Line 164, \<^verbatim>\<open>fund["monthly_investment"] * fund["years"] * 12\<close>, the int \<^verbatim>\<open>years\<close> converted
  to a float for the product.
\<close>

definition invested_amount_of :: "fund \<Rightarrow> py_error + pyfloat" where
  "invested_amount_of fund =
     (case int_to_float (years fund) of
        Inl e \<Rightarrow> Inl e
      | Inr y \<Rightarrow> Inr (fmul (fmul (monthly_investment fund) y) (Fin 12)))"

text \<open>
  The loop of lines 158 to 173 over \<^verbatim>\<open>enumerate(st.session_state.funds)\<close>, from index
  \<open>idx\<close> on. The state is \<^verbatim>\<open>(total_future_value, total_invested_amount, data)\<close>; the totals
  grow by float additions, and an exception leaves the loop.
\<close>

fun fund_loop :: "libm_pow \<Rightarrow> nat \<Rightarrow> fund list \<Rightarrow> pyfloat \<times> pyfloat \<times> result_row list
                    \<Rightarrow> py_error + pyfloat \<times> pyfloat \<times> result_row list" where
  "fund_loop pow idx [] acc = Inr acc"
| "fund_loop pow idx (fund # rest) (total_future_value, total_invested_amount, data) =
     (case calculate_sip_future_value pow (monthly_investment fund) (rate_of_return fund)
             (years fund) of
        Inl e \<Rightarrow> Inl e
      | Inr future_value \<Rightarrow>
          (case invested_amount_of fund of
             Inl e \<Rightarrow> Inl e
           | Inr invested_amount \<Rightarrow>
               fund_loop pow (idx + 1) rest
                 (fadd total_future_value future_value,
                  fadd total_invested_amount invested_amount,
                  data @ [result_row idx fund invested_amount future_value])))"

text \<open>
  What \<^verbatim>\<open>calculate_and_visualize\<close> shows: the warning, or the report. The report holds the
  table built from \<^verbatim>\<open>data\<close> (charted, displayed and exported as the detail file), the three
  totals of the metrics, the two percentages of the metric deltas (the numbers handed to
  the \<^verbatim>\<open>.2f\<close> formatter) and the row of the summary file. Drawing the chart, formatting the
  numbers and writing the files are the libraries' work and are not modelled.
\<close>

record report =
  detail_table :: "result_row list"
  metric_total_invested :: pyfloat
  metric_estimated_returns :: pyfloat
  metric_future_value :: pyfloat
  returns_delta :: pyfloat
  future_delta :: pyfloat
  summary_data :: "pyfloat \<times> pyfloat \<times> pyfloat"

datatype outcome = Warning string | Report report

text \<open>
  \<^verbatim>\<open>calculate_and_visualize\<close>, lines 148 to 256. It returns the session state with what it
  shows or raises; the source has no assignment to the session state or to a fund here.
  The totals start at the int 0, which the first addition converts to the float 0.
\<close>

definition calculate_and_visualize ::
    "libm_pow \<Rightarrow> session_state \<Rightarrow> session_state \<times> (py_error + outcome)" where
  "calculate_and_visualize pow st =
     (if funds st = [] then (st, Inr (Warning ''Please add at least one fund.''))
      else
        (case fund_loop pow 0 (funds st) (Fin 0, Fin 0, []) of
           Inl e \<Rightarrow> (st, Inl e)
         | Inr (total_future_value, total_invested_amount, data) \<Rightarrow>
             (let total_estimated_return = fsub total_future_value total_invested_amount
              in case float_div total_estimated_return total_invested_amount of
                   Inl e \<Rightarrow> (st, Inl e)
                 | Inr q_return \<Rightarrow>
                     (case float_div total_future_value total_invested_amount of
                        Inl e \<Rightarrow> (st, Inl e)
                      | Inr q_future \<Rightarrow>
                          (st, Inr (Report
                             \<lparr>detail_table = data,
                              metric_total_invested = total_invested_amount,
                              metric_estimated_returns = total_estimated_return,
                              metric_future_value = total_future_value,
                              returns_delta = fmul q_return (Fin 100),
                              future_delta = fmul q_future (Fin 100),
                              summary_data =
                                (round2 total_invested_amount,
                                 round2 total_estimated_return,
                                 round2 total_future_value)\<rparr>))))))"

section \<open>Editing the fund list\<close>

text \<open>
  The upload block of \<^verbatim>\<open>render_fund_inputs\<close>, lines 74 to 90. Reading the file is the CSV
  library's work, so its result is the input here: no file, an exception with its text, or
  a data frame with its column names and the rows that \<^verbatim>\<open>df.to_dict('records')\<close> gives.
\<close>

record data_frame =
  columns :: "string list"
  to_dict_records :: "fund list"

datatype ui_message = Error_msg string | Success_msg string

definition required_columns :: "string list" where
  "required_columns = [''fund_name'', ''monthly_investment'', ''rate_of_return'', ''years'']"

definition missing_columns :: "data_frame \<Rightarrow> string list" where
  "missing_columns df = filter (\<lambda>col. col \<notin> set (columns df)) required_columns"

definition handle_csv_upload ::
    "(string + data_frame) option \<Rightarrow> session_state \<Rightarrow> session_state \<times> ui_message list" where
  "handle_csv_upload uploaded_file st =
     (case uploaded_file of
        None \<Rightarrow> (st, [])
      | Some (Inl e) \<Rightarrow> (st, [Error_msg (''Error processing CSV: '' @ e)])
      | Some (Inr df) \<Rightarrow>
          (if missing_columns df \<noteq> []
           then (st, [Error_msg (''Missing columns in CSV: '' @ join '', '' (missing_columns df))])
           else
             (let st' = st\<lparr>funds := to_dict_records df\<rparr>
              in (st', [Success_msg (''Successfully uploaded '' @ str_nat (length (funds st'))
                                      @ '' funds!'')]))))"

text \<open>
  The add button of \<^verbatim>\<open>render_fund_inputs\<close>, lines 133 to 142: its label, and what a press
  does before the script reruns.
\<close>

definition button_text :: "session_state \<Rightarrow> string" where
  "button_text st = (if length (funds st) = 0 then ''Add Fund'' else ''Add Another Fund'')"

definition add_fund_button :: "bool \<Rightarrow> session_state \<Rightarrow> session_state" where
  "add_fund_button pressed st =
     (if pressed
      then st\<lparr>funds := funds st @
             [\<lparr>fund_name = '''', monthly_investment = Fin 1000, rate_of_return = Fin 7,
               years = 10\<rparr>]\<rparr>
      else st)"

section \<open>Quantities of the rounding analysis\<close>

text \<open>
  The smallest normal double \<open>2^-1022\<close>, the relative rounding error \<open>2^-53\<close> of one
  operation in the normal range, the error \<open>2^-33\<close> allowed to the subtraction
  \<open>(1 + r)^n - 1\<close>, which loses the leading digits, and the annuity factor over the reals.
  \<open>in_band x a l h\<close> says that \<open>x\<close> lies between \<open>a \<times> l\<close> and \<open>a \<times> h\<close>.
\<close>

definition tiny :: real where
  "tiny = 2 powi (- 1022)"

definition ulp :: real where
  "ulp = 2 powi (- 53)"

definition kap :: real where
  "kap = 2 powi (- 33)"

definition in_band :: "real \<Rightarrow> real \<Rightarrow> real \<Rightarrow> real \<Rightarrow> bool" where
  "in_band x a l h \<longleftrightarrow> a * l \<le> x \<and> x \<le> a * h"

definition annuity_factor :: "real \<Rightarrow> nat \<Rightarrow> real" where
  "annuity_factor r n = ((1 + r) ^ n - 1) / r"

section \<open>Rounding to the nearest double: facts\<close>

lemma rhe_error: "\<bar>of_int (round_half_even z) - z\<bar> \<le> 1 / 2"
  unfolding round_half_even_def Let_def by (auto simp: abs_le_iff)

lemma rhe_of_int [simp]: "round_half_even (of_int k) = k"
  by (simp add: round_half_even_def)

lemma rhe_0 [simp]: "round_half_even 0 = 0"
  using rhe_of_int [of 0] by simp

lemma pow2_mono: "m \<le> n \<Longrightarrow> (2::real) powi m \<le> 2 powi n"
  by (rule power_int_increasing) simp_all

lemma pow2_less_D: "(2::real) powi m < 2 powi n \<Longrightarrow> m < n"
  using pow2_mono [of n m] by (cases "m < n") auto

lemma pow2_le_D: "(2::real) powi m \<le> 2 powi n \<Longrightarrow> m \<le> n"
  using power_int_strict_increasing [of n m "2::real"] by (cases "m \<le> n") auto

lemma rhe_le_floor_Suc: "round_half_even z \<le> \<lfloor>z\<rfloor> + 1"
  by (simp add: round_half_even_def Let_def)

lemma rhe_ge_floor: "\<lfloor>z\<rfloor> \<le> round_half_even z"
  by (simp add: round_half_even_def Let_def)

lemma rhe_mono:
  assumes "z \<le> w"
  shows "round_half_even z \<le> round_half_even w"
proof (cases "\<lfloor>z\<rfloor> = \<lfloor>w\<rfloor>")
  case True
  with assms show ?thesis
    by (auto simp: round_half_even_def Let_def)
next
  case False
  with assms have "\<lfloor>z\<rfloor> < \<lfloor>w\<rfloor>"
    using floor_mono [of z w] by linarith
  with rhe_le_floor_Suc [of z] rhe_ge_floor [of w] show ?thesis by linarith
qed

lemma expo_bisect_spec:
  assumes "lo \<le> hi" and "hi - lo < 2 ^ k"
  shows "lo \<le> expo_bisect k lo hi a \<and> expo_bisect k lo hi a \<le> hi
         \<and> (lo < expo_bisect k lo hi a \<longrightarrow> 2 powi (expo_bisect k lo hi a) \<le> a)
         \<and> (expo_bisect k lo hi a < hi \<longrightarrow> a < 2 powi (expo_bisect k lo hi a + 1))"
  using assms
proof (induction k arbitrary: lo hi)
  case 0
  then show ?case by simp
next
  case (Suc k)
  show ?case
  proof (cases "hi \<le> lo")
    case True
    with Suc.prems show ?thesis by simp
  next
    case False
    define mid where "mid = (lo + hi + 1) div 2"
    have mid: "lo < mid" "mid \<le> hi" "hi - mid < 2 ^ k" "(mid - 1) - lo < 2 ^ k"
      using False Suc.prems by (simp_all add: mid_def)
    show ?thesis
    proof (cases "2 powi mid \<le> a")
      case True
      then have eq: "expo_bisect (Suc k) lo hi a = expo_bisect k mid hi a"
        using False by (simp add: mid_def Let_def)
      define e where "e = expo_bisect k mid hi a"
      from Suc.IH [OF mid(2,3)]
      have e: "mid \<le> e" "e \<le> hi" "mid < e \<longrightarrow> 2 powi e \<le> a"
        "e < hi \<longrightarrow> a < 2 powi (e + 1)"
        by (simp_all add: e_def)
      have "2 powi e \<le> a"
      proof (cases "mid < e")
        case True
        with e(3) show ?thesis by simp
      next
        case False
        with e(1) have "e = mid" by simp
        with \<open>2 powi mid \<le> a\<close> show ?thesis by simp
      qed
      with e mid(1) show ?thesis
        unfolding eq e_def [symmetric] by simp
    next
      case f: False
      then have eq: "expo_bisect (Suc k) lo hi a = expo_bisect k lo (mid - 1) a"
        using False by (simp add: mid_def Let_def)
      define e where "e = expo_bisect k lo (mid - 1) a"
      have "lo \<le> mid - 1" using mid(1) by simp
      from Suc.IH [OF this mid(4)]
      have e: "lo \<le> e" "e \<le> mid - 1" "lo < e \<longrightarrow> 2 powi e \<le> a"
        "e < mid - 1 \<longrightarrow> a < 2 powi (e + 1)"
        by (simp_all add: e_def)
      have "a < 2 powi (e + 1)"
      proof (cases "e < mid - 1")
        case True
        with e(4) show ?thesis by simp
      next
        case False
        with e(2) have "e + 1 = mid" by simp
        with f show ?thesis by simp
      qed
      with e mid(2) show ?thesis
        unfolding eq e_def [symmetric] by simp
    qed
  qed
qed

lemma expo_spec:
  "- 1022 \<le> expo a \<and> expo a \<le> 1023
   \<and> (- 1022 < expo a \<longrightarrow> 2 powi (expo a) \<le> a)
   \<and> (expo a < 1023 \<longrightarrow> a < 2 powi (expo a + 1))"
  unfolding expo_def by (rule expo_bisect_spec) simp_all

lemma expo_range: "- 1022 \<le> expo a" "expo a \<le> 1023"
  using expo_spec [of a] by simp_all

lemma expo_upper: "expo a < 1023 \<Longrightarrow> a < 2 powi (expo a + 1)"
  using expo_spec [of a] by simp

lemma expo_lower: "- 1022 < expo a \<Longrightarrow> 2 powi (expo a) \<le> a"
  using expo_spec [of a] by simp

lemma expo_mono:
  assumes "a \<le> b"
  shows "expo a \<le> expo b"
proof (rule ccontr)
  assume "\<not> expo a \<le> expo b"
  then have lt: "expo b < expo a" by simp
  with expo_range [of a] expo_range [of b] have "- 1022 < expo a" "expo b < 1023" by simp_all
  then have "2 powi (expo a) \<le> a" "b < 2 powi (expo b + 1)"
    by (simp_all add: expo_lower expo_upper)
  with assms have "(2::real) powi (expo a) < 2 powi (expo b + 1)" by linarith
  then have "expo a < expo b + 1" by (rule pow2_less_D)
  with lt show False by simp
qed

lemma rnd_val_0 [simp]: "rnd_val 0 = 0"
  by (simp add: rnd_val_def)

lemma rnd_val_error: "\<bar>rnd_val x - x\<bar> \<le> 2 powi (expo \<bar>x\<bar> - 52) / 2"
proof -
  define s :: real where "s = 2 powi (expo \<bar>x\<bar> - 52)"
  have s: "0 < s" by (simp add: s_def)
  have "rnd_val x - x = (of_int (round_half_even (x / s)) - x / s) * s"
    using s by (simp add: rnd_val_def s_def left_diff_distrib)
  then have "\<bar>rnd_val x - x\<bar> = \<bar>of_int (round_half_even (x / s)) - x / s\<bar> * s"
    using s by (simp add: abs_mult)
  also have "\<dots> \<le> (1 / 2) * s"
    using rhe_error [of "x / s"] s by (intro mult_right_mono) simp_all
  finally show ?thesis by (simp add: s_def)
qed

lemma rnd_val_exact:
  assumes x: "x = of_int m * 2 powi k" and m: "\<bar>m\<bar> < 2 ^ 53" and k: "- 1074 \<le> k"
  shows "rnd_val x = x"
proof (cases "m = 0")
  case True
  with x show ?thesis by simp
next
  case False
  define e where "e = expo \<bar>x\<bar>"
  have ax: "\<bar>x\<bar> = of_int \<bar>m\<bar> * 2 powi k"
    by (simp add: x abs_mult)
  have "e - 52 \<le> k"
  proof (cases "- 1022 < e")
    case True
    then have "2 powi e \<le> \<bar>x\<bar>"
      unfolding e_def by (rule expo_lower)
    also have "\<bar>x\<bar> < 2 ^ 53 * 2 powi k"
      unfolding ax using m by (intro mult_strict_right_mono) (simp_all add: of_int_less_iff [where 'a = real, symmetric] del: of_int_less_iff)
    also have "\<dots> = 2 powi (53 + k)"
      using power_int_add [of "2::real" 53 k] by simp
    finally have "e < 53 + k"
      by (rule pow2_less_D)
    then show ?thesis by simp
  next
    case False
    with k show ?thesis by simp
  qed
  then obtain j where j: "k - (e - 52) = int j"
    using nonneg_int_cases [of "k - (e - 52)"] by auto
  have "x / 2 powi (e - 52) = of_int m * 2 powi (k - (e - 52))"
    by (simp add: x power_int_diff)
  also have "\<dots> = of_int (m * 2 ^ j)"
    by (simp add: j)
  finally have "round_half_even (x / 2 powi (e - 52)) = m * 2 ^ j"
    by (simp only: rhe_of_int)
  then have "rnd_val x = of_int (m * 2 ^ j) * 2 powi (e - 52)"
    by (simp add: rnd_val_def e_def)
  also have "\<dots> = of_int m * (2 powi (int j) * 2 powi (e - 52))"
    by simp
  also have "2 powi (int j) * 2 powi (e - 52) = (2::real) powi k"
    unfolding j [symmetric] by (simp add: power_int_add [symmetric])
  finally show ?thesis by (simp add: x)
qed

lemma rnd_val_nonneg:
  assumes "0 \<le> x"
  shows "0 \<le> rnd_val x"
proof -
  have "0 \<le> x / 2 powi (expo \<bar>x\<bar> - 52)"
    using assms by simp
  then have "0 \<le> \<lfloor>x / 2 powi (expo \<bar>x\<bar> - 52)\<rfloor>" by simp
  with rhe_ge_floor [of "x / 2 powi (expo \<bar>x\<bar> - 52)"]
  have "0 \<le> round_half_even (x / 2 powi (expo \<bar>x\<bar> - 52))" by linarith
  then show ?thesis
    by (simp add: rnd_val_def)
qed

lemma rnd_val_mono:
  assumes "0 \<le> x" and "x \<le> y"
  shows "rnd_val x \<le> rnd_val y"
proof -
  define ex where "ex = expo \<bar>x\<bar>"
  define ey where "ey = expo \<bar>y\<bar>"
  have xy: "\<bar>x\<bar> = x" "\<bar>y\<bar> = y" using assms by simp_all
  have le: "ex \<le> ey"
    unfolding ex_def ey_def using assms by (intro expo_mono) simp
  have vx: "rnd_val x = of_int (round_half_even (x / 2 powi (ex - 52))) * 2 powi (ex - 52)"
    by (simp add: rnd_val_def ex_def)
  have vy: "rnd_val y = of_int (round_half_even (y / 2 powi (ey - 52))) * 2 powi (ey - 52)"
    by (simp add: rnd_val_def ey_def)
  show ?thesis
  proof (cases "ex = ey")
    case True
    have "x / 2 powi (ey - 52) \<le> y / 2 powi (ey - 52)"
      using assms by (intro divide_right_mono) simp_all
    then have "round_half_even (x / 2 powi (ey - 52)) \<le> round_half_even (y / 2 powi (ey - 52))"
      by (rule rhe_mono)
    then show ?thesis
      unfolding vx vy True by (intro mult_right_mono) simp_all
  next
    case False
    with le have lt: "ex < ey" by simp
    have "- 1022 \<le> ex" "ey \<le> 1023"
      unfolding ex_def ey_def by (rule expo_range)+
    with lt have "- 1022 < ey" "ex < 1023" by simp_all
    then have y_lo: "2 powi ey \<le> y" and x_hi: "x < 2 powi (ex + 1)"
      using expo_lower [of "\<bar>y\<bar>"] expo_upper [of "\<bar>x\<bar>"] by (simp_all add: ex_def ey_def xy)
    have "x / 2 powi (ex - 52) \<le> 2 powi (ex + 1) / 2 powi (ex - 52)"
      using x_hi by (intro divide_right_mono) simp_all
    also have "\<dots> = real_of_int (2 ^ 53)"
      using power_int_diff [of "2::real" "ex + 1" "ex - 52"] by simp
    finally have "round_half_even (x / 2 powi (ex - 52)) \<le> 2 ^ 53"
      using rhe_mono rhe_of_int by metis
    then have "of_int (round_half_even (x / 2 powi (ex - 52))) \<le> (2::real) ^ 53"
      using of_int_le_iff [where 'a = real] by fastforce
    then have "rnd_val x \<le> 2 ^ 53 * 2 powi (ex - 52)"
      unfolding vx by (intro mult_right_mono) simp_all
    also have "\<dots> = 2 powi (ex + 1)"
      using power_int_add [of "2::real" 53 "ex - 52"] by (simp add: add.commute)
    also have "\<dots> \<le> 2 powi ey"
      using lt by (intro pow2_mono) simp
    also have "\<dots> = 2 ^ 52 * 2 powi (ey - 52)"
      using power_int_add [of "2::real" 52 "ey - 52"] by simp
    also have "\<dots> \<le> rnd_val y"
    proof -
      have "real_of_int (2 ^ 52) = 2 powi ey / 2 powi (ey - 52)"
        using power_int_diff [of "2::real" ey "ey - 52"] by simp
      also have "\<dots> \<le> y / 2 powi (ey - 52)"
        using y_lo by (intro divide_right_mono) simp_all
      finally have "2 ^ 52 \<le> round_half_even (y / 2 powi (ey - 52))"
        using rhe_mono rhe_of_int by metis
      then have "(2::real) ^ 52 \<le> of_int (round_half_even (y / 2 powi (ey - 52)))"
        using of_int_le_iff [where 'a = real] by fastforce
      then show ?thesis
        unfolding vy by (intro mult_right_mono) simp_all
    qed
    finally show ?thesis .
  qed
qed

lemma expo_le_normal:
  assumes "2 powi (- 1022) \<le> a"
  shows "2 powi (expo a) \<le> a"
proof (cases "- 1022 < expo a")
  case True
  then show ?thesis by (rule expo_lower)
next
  case False
  with expo_range(1) [of a] have "expo a = - 1022" by simp
  with assms show ?thesis by simp
qed

lemma rnd_val_rel:
  assumes "2 powi (- 1022) \<le> x"
  shows "\<bar>rnd_val x - x\<bar> \<le> x * 2 powi (- 53)"
proof -
  have x: "0 < x" "\<bar>x\<bar> = x"
    using assms zero_less_power_int [of "2::real" "- 1022"] by linarith+
  have "\<bar>rnd_val x - x\<bar> \<le> 2 powi (expo x - 52) / 2"
    using rnd_val_error [of x] x by simp
  also have "\<dots> = 2 powi (expo x) * 2 powi (- 53)"
    by (simp add: power_int_diff power_int_minus_divide)
  also have "\<dots> \<le> x * 2 powi (- 53)"
    using expo_le_normal [OF assms] by (intro mult_right_mono) simp_all
  finally show ?thesis .
qed

lemma rnd_Fin: "\<bar>rnd_val x\<bar> < huge \<Longrightarrow> rnd x = Fin (rnd_val x)"
  by (simp add: rnd_def Let_def abs_less_iff not_le)

lemma rnd_Fin_D: "rnd x = Fin y \<Longrightarrow> y = rnd_val x \<and> \<bar>y\<bar> < huge"
  by (simp add: rnd_def Let_def abs_less_iff not_le split: if_splits)

lemma is_double_iff: "is_double x \<longleftrightarrow> rnd_val x = x \<and> \<bar>x\<bar> < huge"
proof
  assume "is_double x"
  then have "rnd x = Fin x" by (simp add: is_double_def)
  from rnd_Fin_D [OF this] show "rnd_val x = x \<and> \<bar>x\<bar> < huge" by simp
next
  assume a: "rnd_val x = x \<and> \<bar>x\<bar> < huge"
  then have "\<bar>rnd_val x\<bar> < huge" by simp
  from rnd_Fin [OF this] a show "is_double x" by (simp add: is_double_def)
qed

lemma is_doubleI:
  assumes "x = of_int m * 2 powi k" and "\<bar>m\<bar> < 2 ^ 53" and "- 1074 \<le> k" and "\<bar>x\<bar> < huge"
  shows "is_double x"
  using rnd_val_exact [OF assms(1-3)] assms(4) by (simp add: is_double_iff)

lemma pow2_lt_huge: "k \<le> 1023 \<Longrightarrow> (2::real) powi k < huge"
  unfolding huge_def by (rule power_int_strict_increasing) simp_all

lemma is_double_pow2: "- 1074 \<le> k \<Longrightarrow> k \<le> 1023 \<Longrightarrow> is_double (2 powi k)"
  using is_doubleI [of "2 powi k" 1 k] pow2_lt_huge [of k] by simp

lemma is_double_int:
  assumes "\<bar>m\<bar> < 2 ^ 53"
  shows "is_double (of_int m)"
proof -
  have "real_of_int \<bar>m\<bar> < real_of_int (2 ^ 53)"
    using assms by (simp only: of_int_less_iff)
  then have "\<bar>real_of_int m\<bar> < 2 powi 53" by simp
  also have "(2::real) powi 53 < huge" by (rule pow2_lt_huge) simp
  finally show ?thesis
    using is_doubleI [of "of_int m" m 0] assms by simp
qed

lemma rhe_abs_le:
  assumes "\<bar>z\<bar> \<le> of_int n"
  shows "\<bar>round_half_even z\<bar> \<le> n"
proof -
  from assms have "of_int (- n) \<le> z" "z \<le> of_int n" by simp_all
  from rhe_mono [OF this(1)] rhe_mono [OF this(2)]
  have "- n \<le> round_half_even z" "round_half_even z \<le> n"
    by (simp_all only: rhe_of_int)
  then show ?thesis by simp
qed

lemma rnd_val_idem:
  assumes fin: "\<bar>rnd_val x\<bar> < 2 powi 1024"
  shows "rnd_val (rnd_val x) = rnd_val x"
proof -
  define e where "e = expo \<bar>x\<bar>"
  define m where "m = round_half_even (x / 2 powi (e - 52))"
  have y: "rnd_val x = of_int m * 2 powi (e - 52)"
    by (simp add: rnd_val_def e_def m_def)
  have e: "- 1022 \<le> e" "e \<le> 1023"
    unfolding e_def by (rule expo_range)+
  have split: "(2::real) powi (e + 1) = 2 powi 53 * 2 powi (e - 52)"
    using power_int_add [of "2::real" 53 "e - 52"] by (simp add: add.commute)
  have m_le: "\<bar>m\<bar> \<le> 2 ^ 53"
  proof (cases "e < 1023")
    case True
    then have "\<bar>x\<bar> < 2 powi (e + 1)"
      unfolding e_def by (rule expo_upper)
    then have "\<bar>x\<bar> / 2 powi (e - 52) \<le> 2 powi (e + 1) / 2 powi (e - 52)"
      by (intro divide_right_mono) simp_all
    also have "\<dots> = real_of_int (2 ^ 53)"
      using power_int_diff [of "2::real" "e + 1" "e - 52"] by simp
    finally have "\<bar>x / 2 powi (e - 52)\<bar> \<le> real_of_int (2 ^ 53)"
      by (simp add: abs_divide)
    then show ?thesis
      unfolding m_def by (rule rhe_abs_le)
  next
    case False
    with e have e1023: "e = 1023" by simp
    have "real_of_int \<bar>m\<bar> * 2 powi (e - 52) = \<bar>rnd_val x\<bar>"
      by (simp add: y abs_mult)
    also have "\<dots> < 2 powi 1024" by (rule fin)
    also have "\<dots> = 2 powi 53 * 2 powi (e - 52)"
      using split e1023 by simp
    finally have "real_of_int \<bar>m\<bar> < 2 powi 53"
      by (simp only: mult_less_cancel_right_pos zero_less_power_int zero_less_numeral)
    then have "real_of_int \<bar>m\<bar> < real_of_int (2 ^ 53)" by simp
    then have "\<bar>m\<bar> < 2 ^ 53" by (simp only: of_int_less_iff)
    then show ?thesis by simp
  qed
  show ?thesis
  proof (cases "\<bar>m\<bar> < 2 ^ 53")
    case True
    from rnd_val_exact [OF y True] e show ?thesis by simp
  next
    case False
    with m_le have m: "\<bar>m\<bar> = 2 ^ 53" by simp
    define sg :: int where "sg = (if 0 \<le> m then 1 else - 1)"
    have msg: "m = sg * 2 ^ 53"
      using m by (auto simp: sg_def abs_if split: if_splits)
    have "rnd_val x = of_int sg * (2 powi 53 * 2 powi (e - 52))"
      by (simp add: y msg)
    then have y': "rnd_val x = of_int sg * 2 powi (e + 1)"
      by (simp only: split)
    have "\<bar>sg\<bar> < 2 ^ 53" by (simp add: sg_def)
    from rnd_val_exact [OF y' this] e show ?thesis by simp
  qed
qed

lemma rnd_is_double:
  assumes "rnd x = Fin y"
  shows "is_double y"
proof -
  from rnd_Fin_D [OF assms] have y: "y = rnd_val x" and fin: "\<bar>rnd_val x\<bar> < huge" by auto
  from rnd_val_idem [OF fin [unfolded huge_def]] fin show ?thesis
    unfolding y is_double_iff by simp
qed

lemma rnd_double: "is_double x \<Longrightarrow> rnd x = Fin x"
  by (simp add: is_double_def)

lemma tiny_pos: "0 < tiny" by (simp add: tiny_def)

lemma huge_pos: "0 < huge" by (simp add: huge_def)

lemma ulp_val: "ulp = 1 / 9007199254740992" by (simp add: ulp_def)

lemma tiny_le_pow2: "- 1022 \<le> k \<Longrightarrow> tiny \<le> 2 powi k"
  unfolding tiny_def by (rule pow2_mono)

lemma pow2_le_half_huge: "k \<le> 1023 \<Longrightarrow> 2 powi k \<le> huge / 2"
proof -
  assume "k \<le> 1023"
  then have "(2::real) powi k \<le> 2 powi 1023" by (rule pow2_mono)
  also have "(2::real) powi 1023 = huge / 2"
    using power_int_add [of "2::real" 1023 1] by (simp add: huge_def)
  finally show ?thesis .
qed

text \<open>Rounding a positive number of the normal range.\<close>

lemma rnd_normal:
  assumes lo: "tiny \<le> x" and hi: "x \<le> huge / 2"
  obtains y where "rnd x = Fin y" and "x * (1 - ulp) \<le> y" and "y \<le> x * (1 + ulp)"
    and "is_double y"
proof -
  have x: "0 < x" using lo tiny_pos by linarith
  have err: "\<bar>rnd_val x - x\<bar> \<le> x * ulp"
    using rnd_val_rel [of x] lo by (simp add: tiny_def ulp_def)
  then have b: "x * (1 - ulp) \<le> rnd_val x" "rnd_val x \<le> x * (1 + ulp)"
    by (simp_all add: abs_le_iff algebra_simps)
  have "x * (1 + ulp) \<le> (huge / 2) * (1 + ulp)"
    using hi by (intro mult_right_mono) (simp_all add: ulp_val)
  also have "\<dots> < huge"
    using huge_pos by (simp add: ulp_val)
  finally have "rnd_val x < huge" using b by linarith
  moreover have "0 \<le> rnd_val x" using x by (intro rnd_val_nonneg) simp
  ultimately have "\<bar>rnd_val x\<bar> < huge" by simp
  then have r: "rnd x = Fin (rnd_val x)" by (rule rnd_Fin)
  from that [OF r b rnd_is_double [OF r]] show thesis .
qed

text \<open>Rounding a value that lies in a relative band around a reference value.\<close>

lemma in_band_rnd:
  assumes w: "in_band x a l h" and a: "0 < a" and l: "0 < l"
    and lo: "tiny \<le> a * l" and hi: "a * h \<le> huge / 2"
  obtains y where "rnd x = Fin y" and "in_band y a (l * (1 - ulp)) (h * (1 + ulp))" and "is_double y"
proof -
  from w have x: "a * l \<le> x" "x \<le> a * h" by (simp_all add: in_band_def)
  from x lo hi have "tiny \<le> x" "x \<le> huge / 2" by linarith+
  then obtain y where y: "rnd x = Fin y" "x * (1 - ulp) \<le> y" "y \<le> x * (1 + ulp)" "is_double y"
    by (rule rnd_normal)
  have "a * l * (1 - ulp) \<le> x * (1 - ulp)"
    using x by (intro mult_right_mono) (simp_all add: ulp_val)
  moreover have "x * (1 + ulp) \<le> a * h * (1 + ulp)"
    using x by (intro mult_right_mono) (simp_all add: ulp_val)
  ultimately have "in_band y a (l * (1 - ulp)) (h * (1 + ulp))"
    using y by (simp add: in_band_def mult.assoc)
  from that [OF y(1) this y(4)] show thesis .
qed

lemma in_band_scale:
  assumes "in_band x a l h" and "0 \<le> c"
  shows "in_band (c * x) (c * a) l h"
  using assms mult_left_mono [of "a * l" x c] mult_left_mono [of x "a * h" c]
  by (simp add: in_band_def mult.assoc)

lemma in_band_divide:
  assumes "in_band x a l h" and "0 < c"
  shows "in_band (x / c) (a / c) l h"
  using assms divide_right_mono [of "a * l" x c] divide_right_mono [of x "a * h" c]
  by (simp add: in_band_def)

lemma in_band_mult:
  assumes x: "in_band x a l h" and y: "in_band y b l' h'"
    and pos: "0 \<le> a * l" "0 \<le> b * l'"
  shows "in_band (x * y) (a * b) (l * l') (h * h')"
proof -
  from x y have 1: "a * l \<le> x" "x \<le> a * h" "b * l' \<le> y" "y \<le> b * h'"
    by (simp_all add: in_band_def)
  have "(a * l) * (b * l') \<le> x * y"
    using 1 pos by (intro mult_mono) linarith+
  moreover have "x * y \<le> (a * h) * (b * h')"
    using 1 pos by (intro mult_mono) linarith+
  ultimately show ?thesis
    by (simp add: in_band_def mult_ac)
qed

lemma in_band_weaken:
  assumes "in_band x a l h" and "0 \<le> a" and "l' \<le> l" and "h \<le> h'"
  shows "in_band x a l' h'"
proof -
  have "a * l' \<le> a * l" "a * h \<le> a * h'"
    using assms by (simp_all add: mult_left_mono)
  with assms(1) show ?thesis by (simp add: in_band_def)
qed

section \<open>The rounding error of the future-value function\<close>

lemma two_tiny_le_pow2: "- 1021 \<le> k \<Longrightarrow> 2 * tiny \<le> 2 powi k"
proof -
  assume "- 1021 \<le> k"
  then have "(2::real) powi (- 1021) \<le> 2 powi k" by (rule pow2_mono)
  moreover have "(2::real) powi (- 1021) = 2 * tiny"
    using power_int_add [of "2::real" 1 "- 1022"] by (simp add: tiny_def)
  ultimately show ?thesis by simp
qed

lemma pow2_le_quarter_huge: "k \<le> 1022 \<Longrightarrow> 2 powi k \<le> huge / 4"
proof -
  assume "k \<le> 1022"
  then have "(2::real) powi k \<le> 2 powi 1022" by (rule pow2_mono)
  also have "(2::real) powi 1022 = huge / 4"
    using power_int_add [of "2::real" 1022 2] by (simp add: huge_def)
  finally show ?thesis .
qed

lemma in_band_rnd_mid:
  assumes w: "in_band x a l h" and l: "1 / 2 \<le> l" and h: "h \<le> 2"
    and lo: "2 * tiny \<le> a" and hi: "a \<le> huge / 4"
  obtains y where "rnd x = Fin y" and "in_band y a (l * (1 - ulp)) (h * (1 + ulp))"
    and "is_double y"
proof -
  have a: "0 < a" using lo tiny_pos by linarith
  have "a * (1 / 2) \<le> a * l" using a l by (intro mult_left_mono) simp_all
  then have 1: "tiny \<le> a * l" using lo by simp
  have "a * h \<le> a * 2" using a h by (intro mult_left_mono) simp_all
  then have 2: "a * h \<le> huge / 2" using hi by simp
  from l have 3: "0 < l" by simp
  from in_band_rnd [OF w a 3 1 2] that show thesis by blast
qed

text \<open>Powers of numbers next to one.\<close>

lemma pow_one_plus_le:
  fixes x :: real
  assumes "0 \<le> x" and "2 * real n * x \<le> 1"
  shows "(1 + x) ^ n \<le> 1 + 2 * real n * x"
  using assms(2)
proof (induction n)
  case 0
  show ?case by simp
next
  case (Suc n)
  have nx: "2 * real n * x \<le> 1"
    using Suc.prems assms(1) by (simp add: algebra_simps)
  have "(1 + x) ^ Suc n = (1 + x) ^ n * (1 + x)" by simp
  also have "\<dots> \<le> (1 + 2 * real n * x) * (1 + x)"
    using Suc.IH [OF nx] assms(1) by (intro mult_right_mono) simp_all
  also have "\<dots> = 1 + 2 * real n * x + x + (2 * real n * x) * x"
    by (simp add: algebra_simps)
  also have "\<dots> \<le> 1 + 2 * real n * x + x + 1 * x"
    using nx assms(1) by (intro add_left_mono mult_right_mono) simp_all
  also have "\<dots> = 1 + 2 * real (Suc n) * x"
    by (simp add: algebra_simps)
  finally show ?case .
qed

lemma pow_one_minus_ge:
  fixes x :: real
  assumes "0 \<le> x" and "x \<le> 1"
  shows "1 - real n * x \<le> (1 - x) ^ n"
  using Bernoulli_inequality [of "- x" n] assms by simp

lemma nine_eighths_pow: "n \<le> 1200 \<Longrightarrow> (9 / 8 :: real) ^ n \<le> 2 powi 240"
proof -
  assume "n \<le> 1200"
  then have "(9 / 8 :: real) ^ n \<le> (9 / 8) ^ (5 * 240)"
    by (intro power_increasing) simp_all
  also have "\<dots> = ((9 / 8 :: real) ^ 5) ^ 240"
    by (rule power_mult)
  also have "\<dots> \<le> 2 ^ 240"
    by (intro power_mono) (simp_all add: power_divide)
  finally show ?thesis by simp
qed

lemma in_band_refl: "in_band x x 1 1"
  by (simp add: in_band_def)

lemma in_band_D: "in_band x a l h \<Longrightarrow> a * l \<le> x \<and> x \<le> a * h"
  by (simp add: in_band_def)

text \<open>The monthly rate, the base and the power, as the function computes them.\<close>

lemma monthly_rate_ok:
  assumes "1 / 100 \<le> rate" and "rate \<le> 100"
  obtains r where "fdiv (fdiv (Fin rate) (Fin 100)) (Fin 12) = Fin r"
    and "2 powi (- 18) \<le> r" and "r \<le> 1 / 8"
    and "in_band r (rate / 1200) ((1 - ulp) * (1 - ulp)) ((1 + ulp) * (1 + ulp))"
proof -
  have "2 * tiny \<le> 2 powi (- 14)" by (rule two_tiny_le_pow2) simp
  also have "\<dots> \<le> rate / 100" using assms by simp
  finally have lo1: "2 * tiny \<le> rate / 100" .
  have "rate / 100 \<le> 2 powi 0" using assms by simp
  also have "\<dots> \<le> huge / 4" by (rule pow2_le_quarter_huge) simp
  finally have hi1: "rate / 100 \<le> huge / 4" .
  from in_band_rnd_mid [OF in_band_refl _ _ lo1 hi1]
  obtain r1 where r1: "rnd (rate / 100) = Fin r1"
    and b1: "in_band r1 (rate / 100) (1 * (1 - ulp)) (1 * (1 + ulp))"
    by auto
  from in_band_divide [OF b1, of 12]
  have b1': "in_band (r1 / 12) (rate / 1200) (1 - ulp) (1 + ulp)" by simp
  have "2 * tiny \<le> 2 powi (- 17)" by (rule two_tiny_le_pow2) simp
  also have "\<dots> \<le> rate / 1200" using assms by simp
  finally have lo2: "2 * tiny \<le> rate / 1200" .
  have "rate / 1200 \<le> 2 powi 0" using assms by simp
  also have "\<dots> \<le> huge / 4" by (rule pow2_le_quarter_huge) simp
  finally have hi2: "rate / 1200 \<le> huge / 4" .
  have "1 / 2 \<le> 1 - ulp" "1 + ulp \<le> 2" by (simp_all add: ulp_val)
  from in_band_rnd_mid [OF b1' this lo2 hi2]
  obtain r where r: "rnd (r1 / 12) = Fin r"
    and b: "in_band r (rate / 1200) ((1 - ulp) * (1 - ulp)) ((1 + ulp) * (1 + ulp))"
    by auto
  have eq: "fdiv (fdiv (Fin rate) (Fin 100)) (Fin 12) = Fin r"
    by (simp add: r1 r)
  from in_band_D [OF b] have rb: "rate / 1200 * ((1 - ulp) * (1 - ulp)) \<le> r"
    "r \<le> rate / 1200 * ((1 + ulp) * (1 + ulp))" by simp_all
  have "(2::real) powi (- 18) \<le> 1 / 120000 * ((1 - ulp) * (1 - ulp))"
    by (simp add: ulp_val)
  also have "\<dots> \<le> rate / 1200 * ((1 - ulp) * (1 - ulp))"
    using assms by (intro mult_right_mono) (simp_all add: ulp_val)
  finally have lo: "2 powi (- 18) \<le> r" using rb by linarith
  have "rate / 1200 * ((1 + ulp) * (1 + ulp)) \<le> 100 / 1200 * ((1 + ulp) * (1 + ulp))"
    using assms by (intro mult_right_mono) (simp_all add: ulp_val)
  also have "\<dots> \<le> 1 / 8" by (simp add: ulp_val)
  finally have hi: "r \<le> 1 / 8" using rb by linarith
  from that [OF eq lo hi b] show thesis .
qed

lemma base_ok:
  assumes "2 powi (- 18) \<le> r" and "r \<le> 1 / 8"
  obtains b where "fadd (Fin 1) (Fin r) = Fin b"
    and "in_band b (1 + r) (1 - ulp) (1 + ulp)" and "is_double b" and "1 < b"
proof -
  have r0: "0 < r" using assms(1) zero_less_power_int [of "2::real" "- 18"] by linarith
  have "2 * tiny \<le> 2 powi 0" by (rule two_tiny_le_pow2) simp
  then have lo: "2 * tiny \<le> 1 + r" using r0 by simp
  have "1 + r \<le> 2 powi 1" using assms by simp
  also have "\<dots> \<le> huge / 4" by (rule pow2_le_quarter_huge) simp
  finally have hi: "1 + r \<le> huge / 4" .
  from in_band_rnd_mid [OF in_band_refl _ _ lo hi]
  obtain b where b: "rnd (1 + r) = Fin b"
    and band: "in_band b (1 + r) (1 * (1 - ulp)) (1 * (1 + ulp))" and d: "is_double b"
    by auto
  from band have band': "in_band b (1 + r) (1 - ulp) (1 + ulp)" by simp
  have "1 < (1 + 2 powi (- 18)) * (1 - ulp)" by (simp add: ulp_val)
  also have "\<dots> \<le> (1 + r) * (1 - ulp)"
    using assms by (intro mult_right_mono) (simp_all add: ulp_val)
  also have "\<dots> \<le> b" using in_band_D [OF band'] by simp
  finally have "1 < b" .
  from that [OF _ band' d this] b show thesis by simp
qed

lemma kap_val: "kap = 1 / 8589934592" by (simp add: kap_def)

lemma pow_band:
  fixes b r :: real
  assumes band: "in_band b (1 + r) (1 - ulp) (1 + ulp)" and r: "0 < r" and n: "n \<le> 1200"
  shows "in_band (b ^ n) ((1 + r) ^ n) (1 - real n * ulp) (1 + 2 * real n * ulp)"
proof -
  from in_band_D [OF band] have b: "(1 + r) * (1 - ulp) \<le> b" "b \<le> (1 + r) * (1 + ulp)"
    by simp_all
  have E: "0 \<le> (1 + r) ^ n" using r by simp
  have pos: "0 \<le> (1 + r) * (1 - ulp)" using r by (simp add: ulp_val)
  have "(1 + r) ^ n * (1 - real n * ulp) \<le> (1 + r) ^ n * (1 - ulp) ^ n"
    using E by (intro mult_left_mono pow_one_minus_ge) (simp_all add: ulp_val)
  also have "\<dots> = ((1 + r) * (1 - ulp)) ^ n" by (simp add: power_mult_distrib)
  also have "\<dots> \<le> b ^ n" using b pos by (intro power_mono)
  finally have lo: "(1 + r) ^ n * (1 - real n * ulp) \<le> b ^ n" .
  have "0 \<le> b" using b pos by linarith
  then have "b ^ n \<le> ((1 + r) * (1 + ulp)) ^ n" using b by (intro power_mono)
  also have "\<dots> = (1 + r) ^ n * (1 + ulp) ^ n" by (simp add: power_mult_distrib)
  also have "\<dots> \<le> (1 + r) ^ n * (1 + 2 * real n * ulp)"
  proof (intro mult_left_mono pow_one_plus_le E)
    show "0 \<le> ulp" by (simp add: ulp_val)
    have "2 * real n * ulp \<le> 2 * 1200 * ulp"
      using n by (intro mult_right_mono mult_left_mono) (simp_all add: ulp_val)
    also have "\<dots> \<le> 1" by (simp add: ulp_val)
    finally show "2 * real n * ulp \<le> 1" .
  qed
  finally have hi: "b ^ n \<le> (1 + r) ^ n * (1 + 2 * real n * ulp)" .
  from lo hi show ?thesis by (simp add: in_band_def)
qed

lemma power_ok:
  assumes ok: "libm_ok pow" and d: "is_double b" and b1: "1 < b"
    and band: "in_band b (1 + r) (1 - ulp) (1 + ulp)"
    and r: "0 < r" "r \<le> 1 / 8" and n: "1 \<le> n" "n \<le> 1200"
  obtains p where "pow b (int n) = Fin p"
    and "in_band p ((1 + r) ^ n) (1 - (real n + 2) * ulp) (1 + (2 * real n + 3) * ulp)"
proof -
  define E where "E = (1 + r) ^ n"
  have E1: "1 \<le> E" unfolding E_def using r by (intro one_le_power) simp
  have nu: "real n * ulp \<le> 1200 * ulp"
    using n by (intro mult_right_mono) (simp_all add: ulp_val)
  have nu': "real n * ulp \<le> 1 / 4" "0 \<le> real n * ulp"
    using nu by (simp_all add: ulp_val)
  from in_band_D [OF pow_band [OF band r(1) n(2)]]
  have bn: "E * (1 - real n * ulp) \<le> b ^ n" "b ^ n \<le> E * (1 + 2 * real n * ulp)"
    by (simp_all add: E_def)
  have "E \<le> (9 / 8) ^ n"
    unfolding E_def using r by (intro power_mono) simp_all
  also have "\<dots> \<le> 2 powi 240" using n by (intro nine_eighths_pow)
  finally have E240: "E \<le> 2 powi 240" .
  have "E * (1 + 2 * real n * ulp) \<le> 2 powi 240 * 2"
    using E240 E1 nu' by (intro mult_mono) simp_all
  also have "\<dots> = 2 powi 241"
    using power_int_add [of "2::real" 240 1] by simp
  also have "\<dots> \<le> huge / 2" by (rule pow2_le_half_huge) simp
  finally have "b ^ n \<le> huge / 2" using bn by linarith
  moreover have "0 < int n" using n by simp
  ultimately obtain p where p: "pow b (int n) = Fin p"
    and err: "\<bar>p - b ^ n\<bar> \<le> b ^ n * 2 powi (- 52)"
    using ok d b1 unfolding libm_ok_def by (metis nat_int)
  have two: "(2::real) powi (- 52) = 2 * ulp" by (simp add: ulp_val)
  have bpos: "0 \<le> b ^ n" using b1 by simp
  from err have p_lo: "b ^ n * (1 - 2 * ulp) \<le> p" and p_hi: "p \<le> b ^ n * (1 + 2 * ulp)"
    unfolding two by (simp_all add: abs_le_iff algebra_simps)
  have "E * (1 - (real n + 2) * ulp) \<le> E * ((1 - real n * ulp) * (1 - 2 * ulp))"
  proof (intro mult_left_mono)
    have "(1 - real n * ulp) * (1 - 2 * ulp) = 1 - (real n + 2) * ulp + 2 * (real n * ulp) * ulp"
      by (simp add: algebra_simps)
    moreover have "0 \<le> 2 * (real n * ulp) * ulp" using nu' by (simp add: ulp_val)
    ultimately show "1 - (real n + 2) * ulp \<le> (1 - real n * ulp) * (1 - 2 * ulp)" by linarith
    show "0 \<le> E" using E1 by simp
  qed
  also have "\<dots> = (E * (1 - real n * ulp)) * (1 - 2 * ulp)" by simp
  also have "\<dots> \<le> b ^ n * (1 - 2 * ulp)"
    using bn by (intro mult_right_mono) (simp_all add: ulp_val)
  also have "\<dots> \<le> p" by (rule p_lo)
  finally have lo: "E * (1 - (real n + 2) * ulp) \<le> p" .
  have "p \<le> b ^ n * (1 + 2 * ulp)" by (rule p_hi)
  also have "\<dots> \<le> (E * (1 + 2 * real n * ulp)) * (1 + 2 * ulp)"
    using bn by (intro mult_right_mono) (simp_all add: ulp_val)
  also have "\<dots> = E * ((1 + 2 * real n * ulp) * (1 + 2 * ulp))" by simp
  also have "\<dots> \<le> E * (1 + (2 * real n + 3) * ulp)"
  proof (intro mult_left_mono)
    have "(1 + 2 * real n * ulp) * (1 + 2 * ulp)
            = 1 + (2 * real n + 2) * ulp + (4 * (real n * ulp)) * ulp"
      by (simp add: algebra_simps)
    moreover have "(4 * (real n * ulp)) * ulp \<le> 1 * ulp"
      using nu' by (intro mult_right_mono) (simp_all add: ulp_val)
    ultimately show "(1 + 2 * real n * ulp) * (1 + 2 * ulp) \<le> 1 + (2 * real n + 3) * ulp"
      by (simp add: algebra_simps)
    show "0 \<le> E" using E1 by simp
  qed
  finally have hi: "p \<le> E * (1 + (2 * real n + 3) * ulp)" .
  from lo hi have "in_band p ((1 + r) ^ n) (1 - (real n + 2) * ulp) (1 + (2 * real n + 3) * ulp)"
    by (simp add: in_band_def E_def)
  from that [OF p this] show thesis .
qed

text \<open>The subtraction \<open>(1 + r)^n - 1\<close>: the error of the power, weighed against what is left.\<close>

lemma minus_one_band:
  assumes band: "in_band p E (1 - (real n + 2) * ulp) (1 + (2 * real n + 3) * ulp)"
    and E: "1 + real n * r \<le> E" and r: "2 powi (- 18) \<le> r" and n: "12 \<le> n" "n \<le> 1200"
  shows "in_band (p - 1) (E - 1) (1 - kap) (1 + kap)"
proof -
  define t where "t = (2 * real n + 3) * ulp"
  define g where "g = E - 1"
  have n': "12 \<le> real n" "real n \<le> 1200" using n by simp_all
  have r0: "0 < r" using r zero_less_power_int [of "2::real" "- 18"] by linarith
  have g: "real n * r \<le> g" using E by (simp add: g_def)
  have t_hi: "t \<le> 2403 * ulp"
    unfolding t_def using n' by (intro mult_right_mono) (simp_all add: ulp_val)
  have t0: "0 \<le> t" unfolding t_def by (simp add: ulp_val)
  have "t \<le> (kap - 2403 * ulp) * (real n * 2 powi (- 18))"
    unfolding t_def using n' by (simp add: ulp_val kap_val)
  also have "\<dots> \<le> (kap - 2403 * ulp) * (real n * r)"
    using r n' by (intro mult_left_mono) (simp_all add: ulp_val kap_val)
  also have "\<dots> \<le> (kap - t) * (real n * r)"
    using t_hi r0 n' by (intro mult_right_mono) simp_all
  also have "\<dots> \<le> (kap - t) * g"
    using g t_hi by (intro mult_left_mono) (simp_all add: ulp_val kap_val)
  finally have "t * g + t \<le> kap * g" by (simp add: algebra_simps)
  then have tE: "t * E \<le> kap * g" by (simp add: g_def algebra_simps)
  have E0: "0 \<le> E" using E r0 n' by (smt (verit) mult_nonneg_nonneg)
  have "(real n + 2) * ulp * E \<le> t * E"
    unfolding t_def using E0 by (intro mult_right_mono) (simp_all add: ulp_val)
  with tE have sE: "(real n + 2) * ulp * E \<le> kap * g" by linarith
  from in_band_D [OF band] have p: "E * (1 - (real n + 2) * ulp) \<le> p" "p \<le> E * (1 + t)"
    by (simp_all add: t_def)
  have "g * (1 - kap) = g - kap * g" by (simp add: algebra_simps)
  also have "\<dots> \<le> g - (real n + 2) * ulp * E" using sE by simp
  also have "\<dots> = E * (1 - (real n + 2) * ulp) - 1" by (simp add: g_def algebra_simps)
  also have "\<dots> \<le> p - 1" using p by simp
  finally have lo: "g * (1 - kap) \<le> p - 1" .
  have "p - 1 \<le> E * (1 + t) - 1" using p by simp
  also have "\<dots> = g + t * E" by (simp add: g_def algebra_simps)
  also have "\<dots> \<le> g + kap * g" using tE by simp
  also have "\<dots> = g * (1 + kap)" by (simp add: algebra_simps)
  finally have hi: "p - 1 \<le> g * (1 + kap)" .
  from lo hi show ?thesis by (simp add: in_band_def g_def)
qed

lemma int_to_float_small: "\<bar>k\<bar> < 2 ^ 53 \<Longrightarrow> int_to_float k = Inr (Fin (of_int k))"
  using is_double_int [of k] by (simp add: int_to_float_def is_double_def)

lemma float_pow_libm:
  assumes "1 < b" and "0 < k" and "\<bar>k\<bar> < 2 ^ 53" and "pow b k = Fin p"
  shows "float_pow pow (Fin b) k = Inr (Fin p)"
  using assms by (simp add: float_pow_def int_to_float_small Let_def)

lemma fsub_Fin: "fsub (Fin a) (Fin b) = rnd (a - b)"
  by (simp add: fsub_def)

lemma annuity_factor_ge:
  assumes "0 < r"
  shows "real n \<le> annuity_factor r n"
proof -
  have "1 + real n * r \<le> (1 + r) ^ n"
    using Bernoulli_inequality [of r n] assms by simp
  then have "real n * r \<le> (1 + r) ^ n - 1" by simp
  then show ?thesis
    using assms by (simp add: annuity_factor_def pos_le_divide_eq)
qed

lemma factor_ok:
  assumes ok: "libm_ok pow" and r: "2 powi (- 18) \<le> r" "r \<le> 1 / 8"
    and n: "12 \<le> n" "n \<le> 1200"
  obtains b p q where "fadd (Fin 1) (Fin r) = Fin b"
    and "in_band b (1 + r) (1 - ulp) (1 + ulp)"
    and "float_pow pow (Fin b) (int n) = Inr (Fin p)"
    and "float_div (fsub (Fin p) (Fin 1)) (Fin r) = Inr (Fin q)"
    and "in_band q (annuity_factor r n)
           ((1 - kap) * (1 - ulp) * (1 - ulp)) ((1 + kap) * (1 + ulp) * (1 + ulp))"
    and "annuity_factor r n \<le> 2 powi 258"
proof -
  define E where "E = (1 + r) ^ n"
  define G where "G = annuity_factor r n"
  have r0: "0 < r" using r zero_less_power_int [of "2::real" "- 18"] by linarith
  have n': "12 \<le> real n" "real n \<le> 1200" using n by simp_all
  from base_ok [OF r] obtain b where b: "fadd (Fin 1) (Fin r) = Fin b"
    and bband: "in_band b (1 + r) (1 - ulp) (1 + ulp)" and bd: "is_double b" and b1: "1 < b"
    by blast
  from n have n1: "1 \<le> n" by simp
  from power_ok [OF ok bd b1 bband r0 r(2) n1 n(2)] obtain p where p: "pow b (int n) = Fin p"
    and pband: "in_band p E (1 - (real n + 2) * ulp) (1 + (2 * real n + 3) * ulp)"
    unfolding E_def by blast
  have "0 < int n" "\<bar>int n\<bar> < 2 ^ 53" using n by simp_all
  then have fp: "float_pow pow (Fin b) (int n) = Inr (Fin p)"
    using b1 p by (intro float_pow_libm)
  have bern: "1 + real n * r \<le> E"
    unfolding E_def using Bernoulli_inequality [of r n] r0 by simp
  from minus_one_band [OF pband bern r(1) n]
  have mband: "in_band (p - 1) (E - 1) (1 - kap) (1 + kap)" .
  have "2 * tiny \<le> 2 powi (- 15)" by (rule two_tiny_le_pow2) simp
  also have "\<dots> \<le> 12 * 2 powi (- 18)" by simp
  also have "\<dots> \<le> real n * r" using n' r by (intro mult_mono) simp_all
  also have "\<dots> \<le> E - 1" using bern by simp
  finally have lo1: "2 * tiny \<le> E - 1" .
  have "E \<le> (9 / 8) ^ n"
    unfolding E_def using r r0 by (intro power_mono) simp_all
  also have "\<dots> \<le> 2 powi 240" using n by (intro nine_eighths_pow)
  finally have E240: "E \<le> 2 powi 240" .
  have "E - 1 \<le> 2 powi 240" using E240 by simp
  also have "\<dots> \<le> huge / 4" by (rule pow2_le_quarter_huge) simp
  finally have hi1: "E - 1 \<le> huge / 4" .
  have k: "1 / 2 \<le> 1 - kap" "1 + kap \<le> 2" by (simp_all add: kap_val)
  from in_band_rnd_mid [OF mband k lo1 hi1] obtain d where d: "rnd (p - 1) = Fin d"
    and dband: "in_band d (E - 1) ((1 - kap) * (1 - ulp)) ((1 + kap) * (1 + ulp))"
    by blast
  have GE: "G = (E - 1) / r" by (simp add: G_def E_def annuity_factor_def)
  from in_band_divide [OF dband r0]
  have qband0: "in_band (d / r) G ((1 - kap) * (1 - ulp)) ((1 + kap) * (1 + ulp))"
    by (simp add: GE)
  have Gn: "real n \<le> G" unfolding G_def using r0 by (rule annuity_factor_ge)
  have "2 * tiny \<le> 2 powi 0" by (rule two_tiny_le_pow2) simp
  also have "\<dots> \<le> G" using Gn n' by simp
  finally have lo2: "2 * tiny \<le> G" .
  have "G \<le> 2 powi 240 / r"
    unfolding GE using E240 r0 by (intro divide_right_mono) simp_all
  also have "\<dots> \<le> 2 powi 240 / 2 powi (- 18)"
    using r by (intro divide_left_mono) simp_all
  also have "\<dots> = 2 powi 258"
    using power_int_diff [of "2::real" 240 "- 18"] by simp
  finally have G258: "G \<le> 2 powi 258" .
  also have "\<dots> \<le> huge / 4" by (rule pow2_le_quarter_huge) simp
  finally have hi2: "G \<le> huge / 4" .
  have k2: "1 / 2 \<le> (1 - kap) * (1 - ulp)" "(1 + kap) * (1 + ulp) \<le> 2"
    by (simp_all add: kap_val ulp_val)
  from in_band_rnd_mid [OF qband0 k2 lo2 hi2] obtain q where q: "rnd (d / r) = Fin q"
    and qband: "in_band q G ((1 - kap) * (1 - ulp) * (1 - ulp)) ((1 + kap) * (1 + ulp) * (1 + ulp))"
    by blast
  have fd: "float_div (fsub (Fin p) (Fin 1)) (Fin r) = Inr (Fin q)"
    using r0 by (simp add: float_div_def fsub_Fin d q)
  from that [OF b bband fp fd] qband G258 show thesis
    by (simp add: G_def)
qed

lemma calc_steps:
  assumes "fdiv (fdiv rate (Fin 100)) (Fin 12) = Fin r"
    and "fadd (Fin 1) (Fin r) = Fin b"
    and "float_pow pow (Fin b) (yrs * 12) = Inr (Fin p)"
    and "float_div (fsub (Fin p) (Fin 1)) (Fin r) = Inr (Fin q)"
  shows "calculate_sip_future_value pow c rate yrs = Inr (fmul (fmul c (Fin q)) (Fin b))"
  using assms by (simp add: calculate_sip_future_value_def Let_def)

text \<open>The whole function on the range of the analysis.\<close>

lemma fv_unfold:
  assumes ok: "libm_ok pow" and rate: "1 / 100 \<le> rate" "rate \<le> 100"
    and yrs: "1 \<le> yrs" "yrs \<le> 100"
  obtains r b q where "fdiv (fdiv (Fin rate) (Fin 100)) (Fin 12) = Fin r"
    and "2 powi (- 18) \<le> r" and "r \<le> 1 / 8"
    and "in_band r (rate / 1200) ((1 - ulp) * (1 - ulp)) ((1 + ulp) * (1 + ulp))"
    and "in_band b (1 + r) (1 - ulp) (1 + ulp)"
    and "in_band q (annuity_factor r (nat (yrs * 12)))
           ((1 - kap) * (1 - ulp) * (1 - ulp)) ((1 + kap) * (1 + ulp) * (1 + ulp))"
    and "annuity_factor r (nat (yrs * 12)) \<le> 2 powi 258"
    and "\<And>c. calculate_sip_future_value pow c (Fin rate) yrs
               = Inr (fmul (fmul c (Fin q)) (Fin b))"
proof -
  define n where "n = nat (yrs * 12)"
  have n: "12 \<le> n" "n \<le> 1200" and nk: "int n = yrs * 12"
    using yrs by (simp_all add: n_def)
  from monthly_rate_ok [OF rate] obtain r where
    r: "fdiv (fdiv (Fin rate) (Fin 100)) (Fin 12) = Fin r"
    and rb: "2 powi (- 18) \<le> r" "r \<le> 1 / 8"
    and rband: "in_band r (rate / 1200) ((1 - ulp) * (1 - ulp)) ((1 + ulp) * (1 + ulp))"
    by blast
  from factor_ok [OF ok rb n] obtain b p q where
    b: "fadd (Fin 1) (Fin r) = Fin b" and bband: "in_band b (1 + r) (1 - ulp) (1 + ulp)"
    and p: "float_pow pow (Fin b) (int n) = Inr (Fin p)"
    and q: "float_div (fsub (Fin p) (Fin 1)) (Fin r) = Inr (Fin q)"
    and qband: "in_band q (annuity_factor r n)
           ((1 - kap) * (1 - ulp) * (1 - ulp)) ((1 + kap) * (1 + ulp) * (1 + ulp))"
    and G: "annuity_factor r n \<le> 2 powi 258"
    by blast
  have "calculate_sip_future_value pow c (Fin rate) yrs = Inr (fmul (fmul c (Fin q)) (Fin b))"
    for c
    using r b p q by (intro calc_steps) (simp_all add: nk)
  from that [OF r rb rband bband _ _ this] qband G show thesis
    by (simp add: n_def)
qed

lemma error_budget:
  "1 - 2 powi (- 32) \<le> (1 - kap) * (1 - ulp) * (1 - ulp) * (1 - ulp) * (1 - ulp) * (1 - ulp)"
  "(1 + kap) * (1 + ulp) * (1 + ulp) * (1 + ulp) * (1 + ulp) * (1 + ulp) \<le> 1 + 2 powi (- 32)"
  by (simp_all add: kap_val ulp_val)

lemma fv_band:
  assumes ok: "libm_ok pow" and rate: "1 / 100 \<le> rate" "rate \<le> 100"
    and yrs: "1 \<le> yrs" "yrs \<le> 100"
    and c: "2 powi (- 100) \<le> c" "c \<le> 2 powi 100"
  obtains r v where "fdiv (fdiv (Fin rate) (Fin 100)) (Fin 12) = Fin r"
    and "2 powi (- 18) \<le> r" and "r \<le> 1 / 8"
    and "in_band r (rate / 1200) ((1 - ulp) * (1 - ulp)) ((1 + ulp) * (1 + ulp))"
    and "calculate_sip_future_value pow (Fin c) (Fin rate) yrs = Inr (Fin v)"
    and "in_band v (c * annuity_factor r (nat (yrs * 12)) * (1 + r))
           (1 - 2 powi (- 32)) (1 + 2 powi (- 32))"
proof -
  define n where "n = nat (yrs * 12)"
  from fv_unfold [OF ok rate yrs] obtain r b q where
    r: "fdiv (fdiv (Fin rate) (Fin 100)) (Fin 12) = Fin r"
    and rb: "2 powi (- 18) \<le> r" "r \<le> 1 / 8"
    and rband: "in_band r (rate / 1200) ((1 - ulp) * (1 - ulp)) ((1 + ulp) * (1 + ulp))"
    and bband: "in_band b (1 + r) (1 - ulp) (1 + ulp)"
    and qband: "in_band q (annuity_factor r n)
           ((1 - kap) * (1 - ulp) * (1 - ulp)) ((1 + kap) * (1 + ulp) * (1 + ulp))"
    and G: "annuity_factor r n \<le> 2 powi 258"
    and calc: "\<And>c. calculate_sip_future_value pow c (Fin rate) yrs
               = Inr (fmul (fmul c (Fin q)) (Fin b))"
    unfolding n_def by blast
  define G where "G = annuity_factor r n"
  have r0: "0 < r" using rb zero_less_power_int [of "2::real" "- 18"] by linarith
  have c0: "0 < c" using c zero_less_power_int [of "2::real" "- 100"] by linarith
  have n12: "12 \<le> real n" using yrs by (simp add: n_def)
  have Gn: "real n \<le> G" unfolding G_def using r0 by (rule annuity_factor_ge)
  have G1: "1 \<le> G" using Gn n12 by simp
  have G258: "G \<le> 2 powi 258" using G by (simp add: G_def)
  txt \<open>the product with the contribution\<close>
  from in_band_scale [OF qband, of c] c0
  have cq: "in_band (c * q) (c * G)
           ((1 - kap) * (1 - ulp) * (1 - ulp)) ((1 + kap) * (1 + ulp) * (1 + ulp))"
    by (simp add: G_def)
  have "2 * tiny \<le> 2 powi (- 100)" by (rule two_tiny_le_pow2) simp
  also have "\<dots> \<le> c * 1" using c by simp
  also have "\<dots> \<le> c * G" using G1 c0 by (intro mult_left_mono) simp_all
  finally have lo1: "2 * tiny \<le> c * G" .
  have "c * G \<le> 2 powi 100 * 2 powi 258"
    using c G258 c0 G1 by (intro mult_mono) simp_all
  also have "\<dots> = 2 powi 358"
    using power_int_add [of "2::real" 100 258] by simp
  finally have cG358: "c * G \<le> 2 powi 358" .
  also have "\<dots> \<le> huge / 4" by (rule pow2_le_quarter_huge) simp
  finally have hi1: "c * G \<le> huge / 4" .
  have k1: "1 / 2 \<le> (1 - kap) * (1 - ulp) * (1 - ulp)" "(1 + kap) * (1 + ulp) * (1 + ulp) \<le> 2"
    by (simp_all add: kap_val ulp_val)
  from in_band_rnd_mid [OF cq k1 lo1 hi1] obtain m where m: "rnd (c * q) = Fin m"
    and mband: "in_band m (c * G) ((1 - kap) * (1 - ulp) * (1 - ulp) * (1 - ulp))
                  ((1 + kap) * (1 + ulp) * (1 + ulp) * (1 + ulp))"
    by blast
  txt \<open>the product with \<open>1 + r\<close>\<close>
  have pos1: "0 \<le> c * G * ((1 - kap) * (1 - ulp) * (1 - ulp) * (1 - ulp))"
    using c0 G1 by (simp add: kap_val ulp_val)
  have pos2: "0 \<le> (1 + r) * (1 - ulp)" using r0 by (simp add: ulp_val)
  from in_band_mult [OF mband bband pos1 pos2]
  have mb: "in_band (m * b) (c * G * (1 + r))
              ((1 - kap) * (1 - ulp) * (1 - ulp) * (1 - ulp) * (1 - ulp))
              ((1 + kap) * (1 + ulp) * (1 + ulp) * (1 + ulp) * (1 + ulp))" .
  have "2 * tiny \<le> c * G" by (rule lo1)
  also have "\<dots> = c * G * 1" by simp
  also have "\<dots> \<le> c * G * (1 + r)"
    using c0 G1 r0 by (intro mult_left_mono) simp_all
  finally have lo2: "2 * tiny \<le> c * G * (1 + r)" .
  have "c * G * (1 + r) \<le> 2 powi 358 * 2"
    using cG358 rb c0 G1 r0 by (intro mult_mono) simp_all
  also have "\<dots> = 2 powi 359"
    using power_int_add [of "2::real" 358 1] by simp
  also have "\<dots> \<le> huge / 4" by (rule pow2_le_quarter_huge) simp
  finally have hi2: "c * G * (1 + r) \<le> huge / 4" .
  have k2: "1 / 2 \<le> (1 - kap) * (1 - ulp) * (1 - ulp) * (1 - ulp) * (1 - ulp)"
    "(1 + kap) * (1 + ulp) * (1 + ulp) * (1 + ulp) * (1 + ulp) \<le> 2"
    by (simp_all add: kap_val ulp_val)
  from in_band_rnd_mid [OF mb k2 lo2 hi2] obtain v where v: "rnd (m * b) = Fin v"
    and vband: "in_band v (c * G * (1 + r))
              ((1 - kap) * (1 - ulp) * (1 - ulp) * (1 - ulp) * (1 - ulp) * (1 - ulp))
              ((1 + kap) * (1 + ulp) * (1 + ulp) * (1 + ulp) * (1 + ulp) * (1 + ulp))"
    by blast
  have F0: "0 \<le> c * G * (1 + r)" using c0 G1 r0 by simp
  from in_band_weaken [OF vband F0 error_budget]
  have final: "in_band v (c * G * (1 + r)) (1 - 2 powi (- 32)) (1 + 2 powi (- 32))" .
  have "calculate_sip_future_value pow (Fin c) (Fin rate) yrs = Inr (Fin v)"
    by (simp add: calc m v)
  from that [OF r rb rband this] final show thesis
    by (simp add: G_def n_def)
qed

text \<open>A zero contribution gives 0.0 on the range of the analysis.\<close>

lemma fv_zero:
  assumes ok: "libm_ok pow" and rate: "1 / 100 \<le> rate" "rate \<le> 100"
    and yrs: "1 \<le> yrs" "yrs \<le> 100"
  shows "calculate_sip_future_value pow (Fin 0) (Fin rate) yrs = Inr (Fin 0)"
proof -
  from fv_unfold [OF ok rate yrs] obtain b q where
    "\<And>c. calculate_sip_future_value pow c (Fin rate) yrs
               = Inr (fmul (fmul c (Fin q)) (Fin b))"
    by blast
  moreover have "rnd 0 = Fin 0"
    using is_double_int [of 0] by (simp add: is_double_def)
  ultimately show ?thesis by simp
qed

section \<open>The future-value function: results\<close>

lemma in_band_abs:
  assumes "in_band x a (1 - e) (1 + e)"
  shows "\<bar>x - a\<bar> \<le> a * e"
  using assms by (simp add: in_band_def abs_le_iff algebra_simps)

lemma rnd_overflow:
  assumes "huge \<le> x"
  shows "rnd x = PInf"
proof -
  have "rnd_val (of_int 1 * 2 powi 1024) = of_int 1 * 2 powi 1024"
    by (rule rnd_val_exact [OF refl]) simp_all
  then have "rnd_val huge = huge" by (simp add: huge_def)
  moreover have "rnd_val huge \<le> rnd_val x"
    using assms huge_pos by (intro rnd_val_mono) simp_all
  ultimately show ?thesis by (simp add: rnd_def)
qed

text \<open>The correctly rounded power is a \<^verbatim>\<open>pow\<close> as asked.\<close>

lemma libm_ok_cr_pow: "libm_ok cr_pow"
  unfolding libm_ok_def
proof (intro allI impI conjI)
  fix b :: real and k :: int
  assume a: "is_double b \<and> 1 < b \<and> 0 < k"
  then have cr: "cr_pow b k = rnd (b ^ nat k)" by (simp add: cr_pow_def)
  have x1: "1 \<le> b ^ nat k" using a by (intro one_le_power) simp
  {
    assume "b ^ nat k \<le> huge / 2"
    moreover have "tiny \<le> b ^ nat k"
      using x1 tiny_le_pow2 [of 0] by simp
    ultimately obtain y where y: "rnd (b ^ nat k) = Fin y"
      "b ^ nat k * (1 - ulp) \<le> y" "y \<le> b ^ nat k * (1 + ulp)"
      using rnd_normal by blast
    have "in_band y (b ^ nat k) (1 - ulp) (1 + ulp)"
      using y(2,3) by (simp add: in_band_def)
    then have "\<bar>y - b ^ nat k\<bar> \<le> b ^ nat k * ulp"
      by (rule in_band_abs)
    also have "b ^ nat k * ulp \<le> b ^ nat k * 2 powi (- 52)"
      using x1 by (intro mult_left_mono) (simp_all add: ulp_val)
    finally have "\<bar>y - b ^ nat k\<bar> \<le> b ^ nat k * 2 powi (- 52)" .
    with y(1) cr show "\<exists>p. cr_pow b k = Fin p \<and> \<bar>p - b ^ nat k\<bar> \<le> b ^ nat k * 2 powi (- 52)"
      by simp
  }
  {
    assume "huge \<le> b ^ nat k"
    then show "cr_pow b k = PInf" using cr rnd_overflow by simp
  }
qed

text \<open>
  C3, as amended. For a contribution between \<open>2^-100\<close> and \<open>2^100\<close>, an annual rate
  between 0.01 and 100 percent and 1 to 100 years, and a \<^verbatim>\<open>pow\<close> accurate to one unit in
  the last place, the function raises nothing and returns a finite double within a relative
  error of \<open>2^-32\<close> of the annuity-due value \<open>c \<times> (((1 + r)^n - 1) / r) \<times> (1 + r)\<close>, with
  \<open>n = years \<times> 12\<close> and \<open>r\<close> the monthly rate as the function computes it, itself within
  \<open>2^-51\<close> of \<open>rate / 1200\<close>. The contribution and the rate need not be doubles here.
\<close>

theorem future_value_accuracy:
  assumes "libm_ok pow" and "2 powi (- 100) \<le> c" and "c \<le> 2 powi 100"
    and "1 / 100 \<le> rate" and "rate \<le> 100" and "1 \<le> yrs" and "yrs \<le> 100"
  shows "\<exists>r v. fdiv (fdiv (Fin rate) (Fin 100)) (Fin 12) = Fin r
           \<and> \<bar>r - rate / 1200\<bar> \<le> rate / 1200 * 2 powi (- 51)
           \<and> calculate_sip_future_value pow (Fin c) (Fin rate) yrs = Inr (Fin v)
           \<and> \<bar>v - c * (((1 + r) ^ nat (yrs * 12) - 1) / r) * (1 + r)\<bar>
               \<le> c * (((1 + r) ^ nat (yrs * 12) - 1) / r) * (1 + r) * 2 powi (- 32)"
proof -
  from fv_band [OF assms(1,4,5,6,7,2,3)] obtain r v where
    r: "fdiv (fdiv (Fin rate) (Fin 100)) (Fin 12) = Fin r"
    and rband: "in_band r (rate / 1200) ((1 - ulp) * (1 - ulp)) ((1 + ulp) * (1 + ulp))"
    and v: "calculate_sip_future_value pow (Fin c) (Fin rate) yrs = Inr (Fin v)"
    and vband: "in_band v (c * annuity_factor r (nat (yrs * 12)) * (1 + r))
           (1 - 2 powi (- 32)) (1 + 2 powi (- 32))"
    by blast
  have "0 \<le> rate / 1200" using assms(4) by simp
  moreover have "1 - 2 powi (- 51) \<le> (1 - ulp) * (1 - ulp)"
    "(1 + ulp) * (1 + ulp) \<le> 1 + 2 powi (- 51)"
    by (simp_all add: ulp_val)
  ultimately have "in_band r (rate / 1200) (1 - 2 powi (- 51)) (1 + 2 powi (- 51))"
    using rband by (intro in_band_weaken [OF rband])
  then have "\<bar>r - rate / 1200\<bar> \<le> rate / 1200 * 2 powi (- 51)"
    by (rule in_band_abs)
  moreover from vband
  have "\<bar>v - c * annuity_factor r (nat (yrs * 12)) * (1 + r)\<bar>
               \<le> c * annuity_factor r (nat (yrs * 12)) * (1 + r) * 2 powi (- 32)"
    by (rule in_band_abs)
  then have "\<bar>v - c * (((1 + r) ^ nat (yrs * 12) - 1) / r) * (1 + r)\<bar>
               \<le> c * (((1 + r) ^ nat (yrs * 12) - 1) / r) * (1 + r) * 2 powi (- 32)"
    by (simp only: annuity_factor_def)
  ultimately show ?thesis using r v by blast
qed

lemma invested_band:
  assumes c: "2 powi (- 100) \<le> c" "c \<le> 2 powi 100" and yrs: "1 \<le> yrs" "yrs \<le> 100"
  obtains inv where "fmul (fmul (Fin c) (Fin (of_int yrs))) (Fin 12) = Fin inv"
    and "in_band inv (c * of_int yrs * 12) ((1 - ulp) * (1 - ulp)) ((1 + ulp) * (1 + ulp))"
proof -
  have c0: "0 < c" using c zero_less_power_int [of "2::real" "- 100"] by linarith
  have y: "1 \<le> real_of_int yrs" "real_of_int yrs \<le> 100" using yrs by simp_all
  have "2 * tiny \<le> 2 powi (- 100)" by (rule two_tiny_le_pow2) simp
  also have "\<dots> \<le> c * 1" using c by simp
  also have "\<dots> \<le> c * of_int yrs" using c0 y by (intro mult_left_mono) simp_all
  finally have lo1: "2 * tiny \<le> c * of_int yrs" .
  have "c * of_int yrs \<le> 2 powi 100 * 2 powi 7"
    using c y c0 by (intro mult_mono) simp_all
  also have "\<dots> = 2 powi 107" using power_int_add [of "2::real" 100 7] by simp
  finally have c107: "c * of_int yrs \<le> 2 powi 107" .
  also have "\<dots> \<le> huge / 4" by (rule pow2_le_quarter_huge) simp
  finally have hi1: "c * of_int yrs \<le> huge / 4" .
  from in_band_rnd_mid [OF in_band_refl _ _ lo1 hi1] obtain i1 where
    i1: "rnd (c * of_int yrs) = Fin i1"
    and b1: "in_band i1 (c * of_int yrs) (1 * (1 - ulp)) (1 * (1 + ulp))"
    by auto
  from in_band_scale [OF b1, of 12]
  have b1': "in_band (i1 * 12) (c * of_int yrs * 12) (1 - ulp) (1 + ulp)"
    by (simp add: mult.commute mult.left_commute)
  have "0 \<le> c * of_int yrs" using c0 y by simp
  then have "c * of_int yrs \<le> c * of_int yrs * 12" by simp
  with lo1 have lo2: "2 * tiny \<le> c * of_int yrs * 12" by linarith
  have "c * of_int yrs * 12 \<le> 2 powi 107 * 2 powi 4"
    using c107 c0 y by (intro mult_mono) simp_all
  also have "\<dots> = 2 powi 111" using power_int_add [of "2::real" 107 4] by simp
  also have "\<dots> \<le> huge / 4" by (rule pow2_le_quarter_huge) simp
  finally have hi2: "c * of_int yrs * 12 \<le> huge / 4" .
  have "1 / 2 \<le> 1 - ulp" "1 + ulp \<le> 2" by (simp_all add: ulp_val)
  from in_band_rnd_mid [OF b1' this lo2 hi2] obtain inv where
    inv: "rnd (i1 * 12) = Fin inv"
    and b2: "in_band inv (c * of_int yrs * 12) ((1 - ulp) * (1 - ulp)) ((1 + ulp) * (1 + ulp))"
    by blast
  have "fmul (fmul (Fin c) (Fin (of_int yrs))) (Fin 12) = Fin inv"
    by (simp add: i1 inv)
  from that [OF this b2] show thesis .
qed

text \<open>
  C6, as amended. For a contribution between \<open>2^-100\<close> and \<open>2^100\<close>, an annual rate
  between 0.01 and 100 percent and 1 to 100 years, and a \<^verbatim>\<open>pow\<close> accurate to one unit in
  the last place, the future value returned is strictly above the invested amount
  \<open>c \<times> years \<times> 12\<close>, both as a real product and as line 164 computes it in floats.
\<close>

theorem future_value_exceeds_invested:
  assumes "libm_ok pow" and "2 powi (- 100) \<le> c" and "c \<le> 2 powi 100"
    and "1 / 100 \<le> rate" and "rate \<le> 100" and "1 \<le> yrs" and "yrs \<le> 100"
  shows "\<exists>v inv. calculate_sip_future_value pow (Fin c) (Fin rate) yrs = Inr (Fin v)
           \<and> c * of_int yrs * 12 < v
           \<and> fmul (fmul (Fin c) (Fin (of_int yrs))) (Fin 12) = Fin inv \<and> inv < v"
proof -
  define n where "n = nat (yrs * 12)"
  define A where "A = c * of_int yrs * 12"
  from fv_band [OF assms(1,4,5,6,7,2,3)] obtain r v where
    rb: "2 powi (- 18) \<le> r"
    and v: "calculate_sip_future_value pow (Fin c) (Fin rate) yrs = Inr (Fin v)"
    and vband: "in_band v (c * annuity_factor r n * (1 + r))
           (1 - 2 powi (- 32)) (1 + 2 powi (- 32))"
    unfolding n_def by blast
  from invested_band [OF assms(2,3,6,7)] obtain inv where
    inv: "fmul (fmul (Fin c) (Fin (of_int yrs))) (Fin 12) = Fin inv"
    and iband: "in_band inv A ((1 - ulp) * (1 - ulp)) ((1 + ulp) * (1 + ulp))"
    unfolding A_def by blast
  have c0: "0 < c" using assms(2) zero_less_power_int [of "2::real" "- 100"] by linarith
  have r0: "0 < r" using rb zero_less_power_int [of "2::real" "- 18"] by linarith
  have n_eq: "real n = of_int yrs * 12" using assms(6) by (simp add: n_def)
  have A0: "0 < A" using c0 assms(6) by (simp add: A_def)
  have "A = c * real n" by (simp add: A_def n_eq mult.assoc)
  also have "\<dots> \<le> c * annuity_factor r n"
    using c0 annuity_factor_ge [OF r0, of n] by (intro mult_left_mono) simp_all
  finally have AG: "A \<le> c * annuity_factor r n" .
  have "A * (1 + 2 powi (- 18)) \<le> c * annuity_factor r n * (1 + r)"
    using AG rb A0 by (intro mult_mono) simp_all
  then have "A * (1 + 2 powi (- 18)) * (1 - 2 powi (- 32))
               \<le> c * annuity_factor r n * (1 + r) * (1 - 2 powi (- 32))"
    by (intro mult_right_mono) simp_all
  also have "\<dots> \<le> v" using in_band_D [OF vband] by simp
  finally have lower: "A * ((1 + 2 powi (- 18)) * (1 - 2 powi (- 32))) \<le> v"
    by (simp add: mult.assoc)
  have "A * 1 < A * ((1 + 2 powi (- 18)) * (1 - 2 powi (- 32)))"
    using A0 by (intro mult_strict_left_mono) simp_all
  with lower have Av: "A < v" by simp
  have "inv \<le> A * ((1 + ulp) * (1 + ulp))" using in_band_D [OF iband] by simp
  also have "\<dots> < A * ((1 + 2 powi (- 18)) * (1 - 2 powi (- 32)))"
    using A0 by (intro mult_strict_left_mono) (simp_all add: ulp_val)
  also have "\<dots> \<le> v" by (rule lower)
  finally have "inv < v" .
  with v Av inv show ?thesis unfolding A_def by blast
qed

text \<open>
  C7, as amended. For a contribution between \<open>2^-100\<close> and \<open>2^100\<close>, an annual rate
  between 0.01 and 100 percent, and a \<^verbatim>\<open>pow\<close> accurate to one unit in the last place, the
  future value strictly increases with the number of years from 1 to 100: for
  \<open>1 \<le> y1 < y2 \<le> 100\<close> the value for \<open>y2\<close> is above the value for \<open>y1\<close>.
\<close>

theorem future_value_increases_with_years:
  assumes "libm_ok pow" and "2 powi (- 100) \<le> c" and "c \<le> 2 powi 100"
    and "1 / 100 \<le> rate" and "rate \<le> 100" and "1 \<le> y1" and "y1 < y2" and "y2 \<le> 100"
  shows "\<exists>v1 v2. calculate_sip_future_value pow (Fin c) (Fin rate) y1 = Inr (Fin v1)
           \<and> calculate_sip_future_value pow (Fin c) (Fin rate) y2 = Inr (Fin v2)
           \<and> v1 < v2"
proof -
  define n1 where "n1 = nat (y1 * 12)"
  define n2 where "n2 = nat (y2 * 12)"
  have y: "y1 \<le> 100" "1 \<le> y2" using assms(6,7,8) by simp_all
  from fv_band [OF assms(1,4,5,6) y(1) assms(2,3)] obtain r v1 where
    r: "fdiv (fdiv (Fin rate) (Fin 100)) (Fin 12) = Fin r"
    and rb: "2 powi (- 18) \<le> r"
    and v1: "calculate_sip_future_value pow (Fin c) (Fin rate) y1 = Inr (Fin v1)"
    and band1: "in_band v1 (c * annuity_factor r n1 * (1 + r))
           (1 - 2 powi (- 32)) (1 + 2 powi (- 32))"
    unfolding n1_def by blast
  from fv_band [OF assms(1,4,5) y(2) assms(8,2,3)] obtain r' v2 where
    r': "fdiv (fdiv (Fin rate) (Fin 100)) (Fin 12) = Fin r'"
    and v2: "calculate_sip_future_value pow (Fin c) (Fin rate) y2 = Inr (Fin v2)"
    and band2': "in_band v2 (c * annuity_factor r' n2 * (1 + r'))
           (1 - 2 powi (- 32)) (1 + 2 powi (- 32))"
    unfolding n2_def by blast
  from r r' have "r' = r" by simp
  with band2' have band2: "in_band v2 (c * annuity_factor r n2 * (1 + r))
           (1 - 2 powi (- 32)) (1 + 2 powi (- 32))" by simp
  have c0: "0 < c" using assms(2) zero_less_power_int [of "2::real" "- 100"] by linarith
  have r0: "0 < r" using rb zero_less_power_int [of "2::real" "- 18"] by linarith
  define d where "d = n2 - n1"
  have d: "n2 = n1 + d" "12 \<le> d" "1 \<le> n1"
    using assms(6,7) by (simp_all add: d_def n1_def n2_def)
  define E1 where "E1 = (1 + r) ^ n1"
  have E1: "1 \<le> E1" unfolding E1_def using r0 by (intro one_le_power) simp
  have G1pos: "0 < annuity_factor r n1"
    using annuity_factor_ge [OF r0, of n1] d(3) by simp
  have "1 + 12 * r \<le> 1 + real d * r"
    using d(2) r0 by simp
  also have "\<dots> \<le> (1 + r) ^ d"
    using Bernoulli_inequality [of r d] r0 by simp
  finally have step: "1 + 12 * r \<le> (1 + r) ^ d" .
  have "(E1 - 1) * (1 + 12 * r) \<le> E1 * (1 + 12 * r) - 1"
    using r0 by (simp add: algebra_simps)
  also have "\<dots> \<le> E1 * (1 + r) ^ d - 1"
    using step E1 by (simp add: mult_left_mono)
  also have "\<dots> = (1 + r) ^ n2 - 1"
    by (simp add: E1_def d(1) power_add)
  finally have "(E1 - 1) * (1 + 12 * r) / r \<le> ((1 + r) ^ n2 - 1) / r"
    using r0 by (intro divide_right_mono) simp_all
  then have G: "annuity_factor r n1 * (1 + 12 * r) \<le> annuity_factor r n2"
    by (simp add: annuity_factor_def E1_def)
  have "1 + 12 * 2 powi (- 18) \<le> 1 + 12 * r" using rb by simp
  then have "annuity_factor r n1 * (1 + 12 * 2 powi (- 18)) \<le> annuity_factor r n1 * (1 + 12 * r)"
    using G1pos by (intro mult_left_mono) simp_all
  with G have G': "annuity_factor r n1 * (1 + 12 * 2 powi (- 18)) \<le> annuity_factor r n2"
    by linarith
  define F1 where "F1 = c * annuity_factor r n1 * (1 + r)"
  define F2 where "F2 = c * annuity_factor r n2 * (1 + r)"
  have F1pos: "0 < F1" unfolding F1_def using c0 G1pos r0 by simp
  have "F1 * (1 + 12 * 2 powi (- 18)) = c * (annuity_factor r n1 * (1 + 12 * 2 powi (- 18))) * (1 + r)"
    by (simp add: F1_def)
  also have "\<dots> \<le> c * annuity_factor r n2 * (1 + r)"
    using G' c0 r0 by (intro mult_right_mono mult_left_mono) simp_all
  finally have F12: "F1 * (1 + 12 * 2 powi (- 18)) \<le> F2" by (simp add: F2_def)
  have "v1 \<le> F1 * (1 + 2 powi (- 32))"
    using in_band_D [OF band1] by (simp add: F1_def)
  also have "\<dots> < F1 * ((1 + 12 * 2 powi (- 18)) * (1 - 2 powi (- 32)))"
    using F1pos by (intro mult_strict_left_mono) simp_all
  also have "\<dots> = (F1 * (1 + 12 * 2 powi (- 18))) * (1 - 2 powi (- 32))"
    by simp
  also have "\<dots> \<le> F2 * (1 - 2 powi (- 32))"
    using F12 by (intro mult_right_mono) simp_all
  also have "\<dots> \<le> v2"
    using in_band_D [OF band2] by (simp add: F2_def)
  finally have "v1 < v2" .
  with v1 v2 show ?thesis by blast
qed

theorem future_value_accuracy_witness:
  "libm_ok cr_pow \<and> 2 powi (- 100) \<le> (1000::real) \<and> (1000::real) \<le> 2 powi 100
   \<and> 1 / 100 \<le> (12::real) \<and> (12::real) \<le> 100 \<and> (1::int) \<le> 1 \<and> (1::int) \<le> 100
   \<and> (\<exists>r v. fdiv (fdiv (Fin 12) (Fin 100)) (Fin 12) = Fin r
           \<and> calculate_sip_future_value cr_pow (Fin 1000) (Fin 12) 1 = Inr (Fin v)
           \<and> \<bar>v - 1000 * (((1 + r) ^ 12 - 1) / r) * (1 + r)\<bar>
               \<le> 1000 * (((1 + r) ^ 12 - 1) / r) * (1 + r) * 2 powi (- 32))"
  using future_value_accuracy [of cr_pow 1000 12 1] libm_ok_cr_pow by auto

theorem future_value_exceeds_invested_witness:
  "libm_ok cr_pow \<and> 2 powi (- 100) \<le> (1000::real) \<and> (1000::real) \<le> 2 powi 100
   \<and> 1 / 100 \<le> (12::real) \<and> (12::real) \<le> 100 \<and> (1::int) \<le> 1 \<and> (1::int) \<le> 100
   \<and> (\<exists>v. calculate_sip_future_value cr_pow (Fin 1000) (Fin 12) 1 = Inr (Fin v) \<and> 12000 < v)"
  using future_value_exceeds_invested [of cr_pow 1000 12 1] libm_ok_cr_pow by auto

text \<open>
  C6 as stated fails at a zero contribution: at 0 a month, 12 percent and one year the
  future value is 0.0, which is the invested amount and not more.
\<close>

theorem zero_contribution_not_above_invested:
  "(0::real) \<le> 0 \<and> (0::real) < 12 \<and> (1::int) \<le> 1
   \<and> calculate_sip_future_value cr_pow (Fin 0) (Fin 12) 1 = Inr (Fin 0)
   \<and> \<not> (0 * of_int 1 * 12 < (0::real))"
  using fv_zero [OF libm_ok_cr_pow, of 12 1] by simp

theorem future_value_increases_with_years_witness:
  "libm_ok cr_pow \<and> 2 powi (- 100) \<le> (1000::real) \<and> (1000::real) \<le> 2 powi 100
   \<and> 1 / 100 \<le> (12::real) \<and> (12::real) \<le> 100 \<and> (1::int) \<le> 1 \<and> (1::int) < 2
   \<and> (2::int) \<le> 100
   \<and> (\<exists>v1 v2. calculate_sip_future_value cr_pow (Fin 1000) (Fin 12) 1 = Inr (Fin v1)
           \<and> calculate_sip_future_value cr_pow (Fin 1000) (Fin 12) 2 = Inr (Fin v2)
           \<and> v1 < v2)"
  using future_value_increases_with_years [of cr_pow 1000 12 1 2] libm_ok_cr_pow by simp

text \<open>
  C7 as stated fails at a zero contribution: at 0 a month and 12 percent the future value
  is 0.0 after one year and 0.0 after two.
\<close>

theorem zero_contribution_not_increasing:
  "(0::real) \<le> 0 \<and> (0::real) < 12 \<and> (1::int) \<le> 1 \<and> (1::int) < 2
   \<and> calculate_sip_future_value cr_pow (Fin 0) (Fin 12) 1 = Inr (Fin 0)
   \<and> calculate_sip_future_value cr_pow (Fin 0) (Fin 12) 2 = Inr (Fin 0)
   \<and> \<not> ((0::real) < 0)"
  using fv_zero [OF libm_ok_cr_pow, of 12 1] fv_zero [OF libm_ok_cr_pow, of 12 2] by simp

lemma rnd_int: "\<bar>m\<bar> < 2 ^ 53 \<Longrightarrow> rnd (of_int m) = Fin (of_int m)"
  using is_double_int [of m] by (simp add: is_double_def)

lemma rnd_0 [simp]: "rnd 0 = Fin 0"
  using rnd_int [of 0] by simp

lemma rnd_1 [simp]: "rnd 1 = Fin 1"
  using rnd_int [of 1] by simp

lemma rnd_numeral: "numeral w < (2::int) ^ 53 \<Longrightarrow> rnd (numeral w) = Fin (numeral w)"
  using rnd_int [of "numeral w"] by simp

lemma float_pow_one:
  assumes "\<bar>k\<bar> < 2 ^ 53"
  shows "float_pow pow (Fin 1) k = Inr (Fin 1)"
  using assms by (simp add: float_pow_def int_to_float_small Let_def)

text \<open>A zero rate raises for every contribution and every duration an int-to-float conversion accepts.\<close>

lemma zero_rate_raises:
  assumes "\<bar>yrs * 12\<bar> < 2 ^ 53"
  shows "calculate_sip_future_value pow monthly (Fin 0) yrs = Inl ZeroDivisionError"
  using assms
  by (simp add: calculate_sip_future_value_def Let_def float_pow_one fsub_Fin float_div_def)

text \<open>
  C1. The specification asks that a zero annual rate returns the contributions, \<open>c \<times> years \<times> 12\<close>,
  without a division error. The function has no zero-rate branch: at 1000 a month, rate 0,
  5 years, the monthly rate is 0.0, the power is 1.0 and the division of 0.0 by 0.0
  raises, whatever the C library's \<^verbatim>\<open>pow\<close> is.
\<close>

theorem zero_rate_five_years_raises:
  "calculate_sip_future_value pow (Fin 1000) (Fin 0) 5 = Inl ZeroDivisionError"
  by (rule zero_rate_raises) simp

text \<open>
  C3 as stated fails: the function does not return the formula's value for every rate above
  zero and every duration. At 1000 a month, 1200 percent and 86 years the base is 2.0 and
  the power \<open>2^1032\<close> is beyond the doubles, so \<^verbatim>\<open>**\<close> raises \<^verbatim>\<open>OverflowError\<close>.
\<close>

theorem overflow_at_86_years:
  "(0::real) \<le> 1000 \<and> (0::real) < 1200 \<and> (1::int) \<le> 86
   \<and> calculate_sip_future_value cr_pow (Fin 1000) (Fin 1200) 86 = Inl OverflowError"
proof -
  have "rnd ((2::real) ^ 1032) = PInf"
    by (rule rnd_overflow) (simp add: huge_def)
  then have "cr_pow 2 1032 = PInf" by (simp add: cr_pow_def)
  moreover have "int_to_float 1032 = Inr (Fin 1032)"
    using int_to_float_small [of 1032] by simp
  ultimately have "float_pow cr_pow (Fin 2) 1032 = Inl OverflowError"
    by (simp add: float_pow_def Let_def)
  then show ?thesis
    by (simp add: calculate_sip_future_value_def Let_def rnd_numeral)
qed

section \<open>The report: results\<close>

text \<open>What the loop leaves behind when no fund raises: the totals grown by the running float sums, and one row per fund appended in order.\<close>

lemma fund_loop_sums:
  assumes "fund_loop pow idx fs (tf, ti, d) = Inr (tf', ti', d')"
  shows "\<exists>vs is. list_all2 (\<lambda>f v. calculate_sip_future_value pow (monthly_investment f)
                                  (rate_of_return f) (years f) = Inr v) fs vs
            \<and> list_all2 (\<lambda>f i. invested_amount_of f = Inr i) fs is
            \<and> tf' = foldl fadd tf vs
            \<and> ti' = foldl fadd ti is
            \<and> d' = d @ map (\<lambda>(k, f, i, v). result_row k f i v)
                          (zip [idx..<idx + length fs] (zip fs (zip is vs)))"
  using assms
proof (induction fs arbitrary: idx tf ti d)
  case Nil
  then show ?case by simp
next
  case (Cons f fs)
  from Cons.prems obtain v i where
    v: "calculate_sip_future_value pow (monthly_investment f) (rate_of_return f) (years f) = Inr v"
    and i: "invested_amount_of f = Inr i"
    and rest: "fund_loop pow (idx + 1) fs (fadd tf v, fadd ti i, d @ [result_row idx f i v])
               = Inr (tf', ti', d')"
    by (auto split: sum.splits)
  from Cons.IH [OF rest] obtain vs "is" where
    vs: "list_all2 (\<lambda>f v. calculate_sip_future_value pow (monthly_investment f)
                       (rate_of_return f) (years f) = Inr v) fs vs"
    and "is": "list_all2 (\<lambda>f i. invested_amount_of f = Inr i) fs is"
    and tf': "tf' = foldl fadd (fadd tf v) vs"
    and ti': "ti' = foldl fadd (fadd ti i) is"
    and d': "d' = (d @ [result_row idx f i v]) @
                map (\<lambda>(k, f, i, v). result_row k f i v)
                    (zip [idx + 1..<idx + 1 + length fs] (zip fs (zip is vs)))"
    by blast
  have upt: "[idx..<idx + length (f # fs)] = idx # [idx + 1..<idx + 1 + length fs]"
    by (simp add: upt_rec)
  show ?case
    apply (rule exI [of _ "v # vs"])
    apply (rule exI [of _ "i # is"])
    using v i vs "is" tf' ti' d' upt by simp
qed

lemma fund_loop_from_start:
  assumes "fund_loop pow 0 fs (Fin 0, Fin 0, []) = Inr (tf, ti, d)"
  shows "\<exists>vs is. list_all2 (\<lambda>f v. calculate_sip_future_value pow (monthly_investment f)
                                  (rate_of_return f) (years f) = Inr v) fs vs
            \<and> list_all2 (\<lambda>f i. invested_amount_of f = Inr i) fs is
            \<and> tf = foldl fadd (Fin 0) vs
            \<and> ti = foldl fadd (Fin 0) is
            \<and> length d = length fs
            \<and> (\<forall>k<length fs. d ! k = result_row k (fs ! k) (is ! k) (vs ! k))"
proof -
  from fund_loop_sums [OF assms] obtain vs "is" where
    vs: "list_all2 (\<lambda>f v. calculate_sip_future_value pow (monthly_investment f)
                       (rate_of_return f) (years f) = Inr v) fs vs"
    and "is": "list_all2 (\<lambda>f i. invested_amount_of f = Inr i) fs is"
    and sums: "tf = foldl fadd (Fin 0) vs" "ti = foldl fadd (Fin 0) is"
    and d: "d = map (\<lambda>(k, f, i, v). result_row k f i v)
                  (zip [0..<length fs] (zip fs (zip is vs)))"
    by auto
  have len: "length vs = length fs" "length is = length fs"
    using list_all2_lengthD [OF vs] list_all2_lengthD [OF "is"] by simp_all
  have "length d = length fs"
    by (simp add: d len)
  moreover have "d ! k = result_row k (fs ! k) (is ! k) (vs ! k)" if "k < length fs" for k
    using that by (simp add: d len)
  ultimately show ?thesis
    using vs "is" sums by blast
qed

lemma report_from_loop:
  assumes "calculate_and_visualize pow st = (st', Inr (Report rep))"
  shows "\<exists>tf ti. fund_loop pow 0 (funds st) (Fin 0, Fin 0, []) = Inr (tf, ti, detail_table rep)
           \<and> metric_total_invested rep = ti \<and> metric_estimated_returns rep = fsub tf ti
           \<and> metric_future_value rep = tf
           \<and> summary_data rep = (round2 ti, round2 (fsub tf ti), round2 tf)"
  using assms
  by (auto simp: calculate_and_visualize_def Let_def split: if_splits sum.splits prod.splits)

lemma calculate_and_visualize_state: "fst (calculate_and_visualize pow st) = st"
  by (simp add: calculate_and_visualize_def Let_def split: sum.splits prod.splits)

text \<open>A single fund with a zero contribution never gets a report.\<close>

lemma zero_contribution_report_raises:
  assumes "libm_ok pow" and "1 / 100 \<le> rate" and "rate \<le> 100" and "1 \<le> yrs" and "yrs \<le> 100"
  shows "calculate_and_visualize pow
           \<lparr>funds = [\<lparr>fund_name = name, monthly_investment = Fin 0, rate_of_return = Fin rate,
                       years = yrs\<rparr>]\<rparr>
         = (\<lparr>funds = [\<lparr>fund_name = name, monthly_investment = Fin 0, rate_of_return = Fin rate,
                       years = yrs\<rparr>]\<rparr>, Inl ZeroDivisionError)"
proof -
  have "\<bar>yrs\<bar> < 2 ^ 53" using assms(4,5) by simp
  then have "int_to_float yrs = Inr (Fin (of_int yrs))" by (rule int_to_float_small)
  then show ?thesis
    using fv_zero [OF assms]
    by (simp add: calculate_and_visualize_def invested_amount_of_def float_div_def)
qed

text \<open>
  C2. The specification asks that a non-empty fund list with a zero invested total gets its
  percentages marked not-applicable, with no division by the total. The function divides
  by \<^verbatim>\<open>total_invested_amount\<close> unguarded: for one fund of 0 a month, 7 percent and 10 years
  the total is 0.0 and the first percentage raises.
\<close>

theorem zero_invested_total_raises:
  "calculate_and_visualize cr_pow
     \<lparr>funds = [\<lparr>fund_name = '''', monthly_investment = Fin 0, rate_of_return = Fin 7,
                 years = 10\<rparr>]\<rparr>
   = (\<lparr>funds = [\<lparr>fund_name = '''', monthly_investment = Fin 0, rate_of_return = Fin 7,
                 years = 10\<rparr>]\<rparr>,
      Inl ZeroDivisionError)"
  by (rule zero_contribution_report_raises [OF libm_ok_cr_pow]) simp_all

text \<open>
  C4. Whenever a report is produced, its total future value is the sum, accumulated in
  order by float additions from 0, of the future values the calculator returned for the
  funds, its total invested amount the like sum of the values of line 164, and its total
  return the difference of the two; none of these operands is rounded to two decimals.
  The rounding to two decimals is in the rows of the table (and in the summary row, which
  rounds the finished totals).
\<close>

theorem report_totals_are_unrounded_sums:
  assumes "calculate_and_visualize pow st = (st', Inr (Report rep))"
  shows "\<exists>vs is. list_all2 (\<lambda>f v. calculate_sip_future_value pow (monthly_investment f)
                                  (rate_of_return f) (years f) = Inr v) (funds st) vs
            \<and> list_all2 (\<lambda>f i. invested_amount_of f = Inr i) (funds st) is
            \<and> metric_future_value rep = foldl fadd (Fin 0) vs
            \<and> metric_total_invested rep = foldl fadd (Fin 0) is
            \<and> metric_estimated_returns rep =
                fsub (foldl fadd (Fin 0) vs) (foldl fadd (Fin 0) is)
            \<and> summary_data rep =
                (round2 (metric_total_invested rep), round2 (metric_estimated_returns rep),
                 round2 (metric_future_value rep))
            \<and> length (detail_table rep) = length (funds st)
            \<and> (\<forall>k<length (funds st).
                 invested_amount_col (detail_table rep ! k) = round2 (is ! k)
                 \<and> estimated_returns_col (detail_table rep ! k) = round2 (fsub (vs ! k) (is ! k))
                 \<and> future_value_col (detail_table rep ! k) = round2 (vs ! k))"
proof -
  from report_from_loop [OF assms] obtain tf ti where
    loop: "fund_loop pow 0 (funds st) (Fin 0, Fin 0, []) = Inr (tf, ti, detail_table rep)"
    and rep: "metric_total_invested rep = ti" "metric_estimated_returns rep = fsub tf ti"
      "metric_future_value rep = tf"
      "summary_data rep = (round2 ti, round2 (fsub tf ti), round2 tf)"
    by blast
  from fund_loop_from_start [OF loop] obtain vs "is" where
    vs: "list_all2 (\<lambda>f v. calculate_sip_future_value pow (monthly_investment f)
                       (rate_of_return f) (years f) = Inr v) (funds st) vs"
    and "is": "list_all2 (\<lambda>f i. invested_amount_of f = Inr i) (funds st) is"
    and tf: "tf = foldl fadd (Fin 0) vs"
    and ti: "ti = foldl fadd (Fin 0) is"
    and len: "length (detail_table rep) = length (funds st)"
    and rows: "\<forall>k<length (funds st). detail_table rep ! k =
                 result_row k (funds st ! k) (is ! k) (vs ! k)"
    by blast
  have "metric_future_value rep = foldl fadd (Fin 0) vs"
    by (simp add: rep tf)
  moreover have "metric_total_invested rep = foldl fadd (Fin 0) is"
    by (simp add: rep ti)
  moreover have "metric_estimated_returns rep =
      fsub (foldl fadd (Fin 0) vs) (foldl fadd (Fin 0) is)"
    by (simp add: rep tf ti)
  moreover have "summary_data rep =
      (round2 (metric_total_invested rep), round2 (metric_estimated_returns rep),
       round2 (metric_future_value rep))"
    by (simp add: rep)
  moreover have "\<forall>k<length (funds st).
      invested_amount_col (detail_table rep ! k) = round2 (is ! k)
      \<and> estimated_returns_col (detail_table rep ! k) = round2 (fsub (vs ! k) (is ! k))
      \<and> future_value_col (detail_table rep ! k) = round2 (vs ! k)"
    using rows by (simp add: result_row_def)
  ultimately show ?thesis
    using vs "is" len by blast
qed

text \<open>
  C8. With an empty fund list the function shows the warning to add at least one fund and
  stops: what it returns is the warning, not a report, so there are no rows, no totals and
  nothing to export.
\<close>

theorem empty_fund_list_warns:
  assumes "funds st = []"
  shows "calculate_and_visualize pow st = (st, Inr (Warning ''Please add at least one fund.''))
         \<and> (\<forall>rep. snd (calculate_and_visualize pow st) \<noteq> Inr (Report rep))"
  using assms by (simp add: calculate_and_visualize_def)

theorem empty_fund_list_warns_witness:
  "funds \<lparr>funds = []\<rparr> = []
   \<and> calculate_and_visualize cr_pow \<lparr>funds = []\<rparr>
       = (\<lparr>funds = []\<rparr>, Inr (Warning ''Please add at least one fund.''))"
  using empty_fund_list_warns [of "\<lparr>funds = []\<rparr>" cr_pow] by simp

text \<open>
  C9. In a report, the row of a fund whose stored name is empty carries the label
  \<open>Fund k\<close> with \<open>k\<close> its 1-based position in the list, every other row carries the stored
  name, and the fund list in the session state is what it was: the stored name stays empty.
\<close>

theorem blank_name_gets_positional_label:
  assumes "calculate_and_visualize pow st = (st', Inr (Report rep))"
  shows "st' = st \<and> length (detail_table rep) = length (funds st)
         \<and> (\<forall>i<length (funds st).
              fund_name_col (detail_table rep ! i) =
                (if fund_name (funds st ! i) = '''' then ''Fund '' @ str_nat (i + 1)
                 else fund_name (funds st ! i)))"
proof -
  from report_from_loop [OF assms] obtain tf ti where
    loop: "fund_loop pow 0 (funds st) (Fin 0, Fin 0, []) = Inr (tf, ti, detail_table rep)"
    by blast
  from fund_loop_from_start [OF loop] obtain vs "is" where
    len: "length (detail_table rep) = length (funds st)"
    and rows: "\<forall>k<length (funds st). detail_table rep ! k =
                 result_row k (funds st ! k) (is ! k) (vs ! k)"
    by blast
  have "st' = st"
    using calculate_and_visualize_state [of pow st] assms by simp
  moreover have "\<forall>i<length (funds st).
      fund_name_col (detail_table rep ! i) =
        (if fund_name (funds st ! i) = '''' then ''Fund '' @ str_nat (i + 1)
         else fund_name (funds st ! i))"
    using rows by (simp add: result_row_def)
  ultimately show ?thesis
    using len by simp
qed

text \<open>A fund list that gets a report.\<close>

lemma two_fund_report:
  assumes "libm_ok pow"
  shows "\<exists>rep. calculate_and_visualize pow
       \<lparr>funds = [\<lparr>fund_name = ''Alpha'', monthly_investment = Fin 1000, rate_of_return = Fin 12,
                   years = 1\<rparr>,
                 \<lparr>fund_name = '''', monthly_investment = Fin 2000, rate_of_return = Fin 9,
                   years = 15\<rparr>]\<rparr>
     = (\<lparr>funds = [\<lparr>fund_name = ''Alpha'', monthly_investment = Fin 1000, rate_of_return = Fin 12,
                   years = 1\<rparr>,
                 \<lparr>fund_name = '''', monthly_investment = Fin 2000, rate_of_return = Fin 9,
                   years = 15\<rparr>]\<rparr>,
        Inr (Report rep))"
proof -
  have "\<exists>v. calculate_sip_future_value pow (Fin 1000) (Fin 12) 1 = Inr (Fin v)"
    by (rule fv_band [OF assms, of 12 1 1000]) auto
  then obtain v1 where
    v1: "calculate_sip_future_value pow (Fin 1000) (Fin 12) 1 = Inr (Fin v1)"
    by blast
  have "\<exists>v. calculate_sip_future_value pow (Fin 2000) (Fin 9) 15 = Inr (Fin v)"
    by (rule fv_band [OF assms, of 9 15 2000]) auto
  then obtain v2 where
    v2: "calculate_sip_future_value pow (Fin 2000) (Fin 9) 15 = Inr (Fin v2)"
    by blast
  have i1: "int_to_float 1 = Inr (Fin 1)" "int_to_float 15 = Inr (Fin 15)"
    using int_to_float_small [of 1] int_to_float_small [of 15] by simp_all
  show ?thesis
    by (simp add: calculate_and_visualize_def v1 v2 invested_amount_of_def i1 rnd_numeral
          float_div_def Let_def)
qed

theorem report_totals_are_unrounded_sums_witness:
  "\<exists>rep vs. calculate_and_visualize cr_pow
       \<lparr>funds = [\<lparr>fund_name = ''Alpha'', monthly_investment = Fin 1000, rate_of_return = Fin 12,
                   years = 1\<rparr>,
                 \<lparr>fund_name = '''', monthly_investment = Fin 2000, rate_of_return = Fin 9,
                   years = 15\<rparr>]\<rparr>
     = (\<lparr>funds = [\<lparr>fund_name = ''Alpha'', monthly_investment = Fin 1000, rate_of_return = Fin 12,
                   years = 1\<rparr>,
                 \<lparr>fund_name = '''', monthly_investment = Fin 2000, rate_of_return = Fin 9,
                   years = 15\<rparr>]\<rparr>,
        Inr (Report rep))
     \<and> metric_future_value rep = foldl fadd (Fin 0) vs
     \<and> length vs = 2
     \<and> future_value_col (detail_table rep ! 0) = round2 (vs ! 0)
     \<and> future_value_col (detail_table rep ! 1) = round2 (vs ! 1)"
proof -
  let ?s = "\<lparr>funds =
      [\<lparr>fund_name = ''Alpha'', monthly_investment = Fin 1000, rate_of_return = Fin 12, years = 1\<rparr>,
       \<lparr>fund_name = '''', monthly_investment = Fin 2000, rate_of_return = Fin 9, years = 15\<rparr>]\<rparr>"
  from two_fund_report [OF libm_ok_cr_pow] obtain rep where
    r: "calculate_and_visualize cr_pow ?s = (?s, Inr (Report rep))" by blast
  from report_totals_are_unrounded_sums [OF r] obtain vs where
    vs: "list_all2 (\<lambda>f v. calculate_sip_future_value cr_pow (monthly_investment f)
                       (rate_of_return f) (years f) = Inr v) (funds ?s) vs"
    and tot: "metric_future_value rep = foldl fadd (Fin 0) vs"
    and rows: "\<forall>k<length (funds ?s). future_value_col (detail_table rep ! k) = round2 (vs ! k)"
    by blast
  from list_all2_lengthD [OF vs] have "length vs = 2" by simp
  moreover from rows have "future_value_col (detail_table rep ! 0) = round2 (vs ! 0)"
    "future_value_col (detail_table rep ! 1) = round2 (vs ! 1)" by simp_all
  ultimately show ?thesis using r tot by blast
qed

theorem blank_name_gets_positional_label_witness:
  "\<exists>rep. calculate_and_visualize cr_pow
       \<lparr>funds = [\<lparr>fund_name = ''Alpha'', monthly_investment = Fin 1000, rate_of_return = Fin 12,
                   years = 1\<rparr>,
                 \<lparr>fund_name = '''', monthly_investment = Fin 2000, rate_of_return = Fin 9,
                   years = 15\<rparr>]\<rparr>
     = (\<lparr>funds = [\<lparr>fund_name = ''Alpha'', monthly_investment = Fin 1000, rate_of_return = Fin 12,
                   years = 1\<rparr>,
                 \<lparr>fund_name = '''', monthly_investment = Fin 2000, rate_of_return = Fin 9,
                   years = 15\<rparr>]\<rparr>,
        Inr (Report rep))
     \<and> fund_name_col (detail_table rep ! 0) = ''Alpha''
     \<and> fund_name_col (detail_table rep ! 1) = ''Fund 2''"
proof -
  let ?s = "\<lparr>funds =
      [\<lparr>fund_name = ''Alpha'', monthly_investment = Fin 1000, rate_of_return = Fin 12, years = 1\<rparr>,
       \<lparr>fund_name = '''', monthly_investment = Fin 2000, rate_of_return = Fin 9, years = 15\<rparr>]\<rparr>"
  from two_fund_report [OF libm_ok_cr_pow] obtain rep where
    r: "calculate_and_visualize cr_pow ?s = (?s, Inr (Report rep))" by blast
  from blank_name_gets_positional_label [OF r]
  have "fund_name_col (detail_table rep ! 0) = ''Alpha''"
    and "fund_name_col (detail_table rep ! 1) = ''Fund 2''"
    by (simp_all add: str_nat.simps digit_char_def)
  with r show ?thesis by blast
qed

section \<open>Editing the fund list: results\<close>

text \<open>
  C5. The upload is all-or-nothing for the fund list. When reading the file raises, or when
  one of the columns \<open>fund_name\<close>, \<open>monthly_investment\<close>, \<open>rate_of_return\<close>, \<open>years\<close> is
  missing from the header, the session state is what it was; when all four are there, the
  fund list becomes exactly the rows read, whatever it held before.
\<close>

theorem csv_upload_all_or_nothing:
  "fst (handle_csv_upload (Some (Inl e)) st) = st
   \<and> (\<not> {''fund_name'', ''monthly_investment'', ''rate_of_return'', ''years''} \<subseteq> set (columns df)
        \<longrightarrow> fst (handle_csv_upload (Some (Inr df)) st) = st)
   \<and> ({''fund_name'', ''monthly_investment'', ''rate_of_return'', ''years''} \<subseteq> set (columns df)
        \<longrightarrow> funds (fst (handle_csv_upload (Some (Inr df)) st)) = to_dict_records df)"
  by (auto simp: handle_csv_upload_def missing_columns_def required_columns_def Let_def)

theorem csv_upload_all_or_nothing_witness:
  "fst (handle_csv_upload (Some (Inl ''No columns to parse from file''))
          \<lparr>funds = [\<lparr>fund_name = ''Alpha'', monthly_investment = Fin 1000, rate_of_return = Fin 12,
                      years = 1\<rparr>]\<rparr>)
     = \<lparr>funds = [\<lparr>fund_name = ''Alpha'', monthly_investment = Fin 1000, rate_of_return = Fin 12,
                  years = 1\<rparr>]\<rparr>
   \<and> \<not> {''fund_name'', ''monthly_investment'', ''rate_of_return'', ''years''}
          \<subseteq> set [''fund_name'', ''monthly_investment'', ''rate_of_return'']
   \<and> fst (handle_csv_upload
             (Some (Inr \<lparr>columns = [''fund_name'', ''monthly_investment'', ''rate_of_return''],
                         to_dict_records = []\<rparr>))
             \<lparr>funds = [\<lparr>fund_name = ''Alpha'', monthly_investment = Fin 1000,
                         rate_of_return = Fin 12, years = 1\<rparr>]\<rparr>)
     = \<lparr>funds = [\<lparr>fund_name = ''Alpha'', monthly_investment = Fin 1000, rate_of_return = Fin 12,
                  years = 1\<rparr>]\<rparr>
   \<and> {''fund_name'', ''monthly_investment'', ''rate_of_return'', ''years''}
          \<subseteq> set [''years'', ''fund_name'', ''note'', ''monthly_investment'', ''rate_of_return'']
   \<and> funds (fst (handle_csv_upload
             (Some (Inr \<lparr>columns = [''years'', ''fund_name'', ''note'', ''monthly_investment'',
                                    ''rate_of_return''],
                         to_dict_records =
                           [\<lparr>fund_name = ''Beta'', monthly_investment = Fin 500,
                             rate_of_return = Fin 9, years = 15\<rparr>]\<rparr>))
             \<lparr>funds = [\<lparr>fund_name = ''Alpha'', monthly_investment = Fin 1000,
                         rate_of_return = Fin 12, years = 1\<rparr>]\<rparr>))
     = [\<lparr>fund_name = ''Beta'', monthly_investment = Fin 500, rate_of_return = Fin 9, years = 15\<rparr>]"
  using csv_upload_all_or_nothing
          [of "''No columns to parse from file''"
              "\<lparr>funds = [\<lparr>fund_name = ''Alpha'', monthly_investment = Fin 1000,
                           rate_of_return = Fin 12, years = 1\<rparr>]\<rparr>"
              "\<lparr>columns = [''fund_name'', ''monthly_investment'', ''rate_of_return''],
                to_dict_records = []\<rparr>"]
        csv_upload_all_or_nothing
          [of "''No columns to parse from file''"
              "\<lparr>funds = [\<lparr>fund_name = ''Alpha'', monthly_investment = Fin 1000,
                           rate_of_return = Fin 12, years = 1\<rparr>]\<rparr>"
              "\<lparr>columns = [''years'', ''fund_name'', ''note'', ''monthly_investment'',
                            ''rate_of_return''],
                to_dict_records =
                  [\<lparr>fund_name = ''Beta'', monthly_investment = Fin 500, rate_of_return = Fin 9,
                    years = 15\<rparr>]\<rparr>"]
  by simp

text \<open>
  C10. Pressing the add button appends one fund to the end of the list, with an empty name,
  1000.0 a month, 7.0 percent and 10 years; the list is one longer and every fund that was
  there keeps its place and its values.
\<close>

theorem add_fund_appends_default:
  "funds (add_fund_button True st) =
     funds st @ [\<lparr>fund_name = '''', monthly_investment = Fin 1000, rate_of_return = Fin 7,
                  years = 10\<rparr>]
   \<and> length (funds (add_fund_button True st)) = length (funds st) + 1
   \<and> (\<forall>i<length (funds st). funds (add_fund_button True st) ! i = funds st ! i)"
  by (simp add: add_fund_button_def nth_append)

theorem add_fund_appends_default_witness:
  "funds (add_fund_button True
            \<lparr>funds = [\<lparr>fund_name = ''Alpha'', monthly_investment = Fin 500, rate_of_return = Fin 9,
                        years = 15\<rparr>]\<rparr>)
     = [\<lparr>fund_name = ''Alpha'', monthly_investment = Fin 500, rate_of_return = Fin 9, years = 15\<rparr>,
        \<lparr>fund_name = '''', monthly_investment = Fin 1000, rate_of_return = Fin 7, years = 10\<rparr>]
   \<and> (0::nat) < length (funds \<lparr>funds = [\<lparr>fund_name = ''Alpha'', monthly_investment = Fin 500,
                                          rate_of_return = Fin 9, years = 15\<rparr>]\<rparr>)
   \<and> funds (add_fund_button True
            \<lparr>funds = [\<lparr>fund_name = ''Alpha'', monthly_investment = Fin 500, rate_of_return = Fin 9,
                        years = 15\<rparr>]\<rparr>) ! 0
     = \<lparr>fund_name = ''Alpha'', monthly_investment = Fin 500, rate_of_return = Fin 9, years = 15\<rparr>"
  using add_fund_appends_default
          [of "\<lparr>funds = [\<lparr>fund_name = ''Alpha'', monthly_investment = Fin 500,
                           rate_of_return = Fin 9, years = 15\<rparr>]\<rparr>"]
  by simp

end
